theory Spec2Isabelle
  imports Complex_Main "HOL-Library.Word" "HOL-Library.Signed_Division"
begin

unbundle bit_operations_syntax

section \<open>G.711 mu-law companding (main.c, linear_to_mulaw)\<close>

text \<open>
  The C function works on an \<open>int16_t\<close> parameter that it overwrites. Every store into
  that variable is a 16-bit store, so the model keeps it as a \<open>16 word\<close>: negation and
  the addition of the bias wrap modulo \<open>2^16\<close>, as the conversion back to \<open>int16_t\<close>
  does under GCC. Comparisons and the bit operations are done by C after integer
  promotion to \<open>int\<close>; the promoted value is \<open>sint\<close> of the word, and the
  intermediate \<open>int\<close> values (mask, exponent, mantissa) never leave the 32-bit range,
  so they are HOL integers. Right shift of a negative \<open>int\<close> is arithmetic, which is
  what \<open>drop_bit\<close> on \<open>int\<close> computes.
\<close>

type_synonym int16_t = "16 word"
type_synonym uint8_t = "8 word"
type_synonym uint16_t = "16 word"
type_synonym uint32_t = "32 word"

definition BIAS :: uint16_t where
  "BIAS = 0x84"

definition CLIP :: uint16_t where
  "CLIP = 32635"

text \<open>
  The loop \<^verbatim>\<open>for (int expMask = 0x4000; (pcm_val & expMask) == 0 && exponent > 0; expMask >>= 1) exponent--;\<close>
  with the promoted sample \<open>pcm\<close>, the mask and the exponent as loop state.
\<close>

function exponent_loop :: "int \<Rightarrow> int \<Rightarrow> int \<Rightarrow> int" where
  "exponent_loop pcm expMask exponent =
     (if pcm AND expMask = 0 \<and> exponent > 0
      then exponent_loop pcm (drop_bit 1 expMask) (exponent - 1)
      else exponent)"
  by pat_completeness auto
termination
  by (relation "measure (\<lambda>(pcm, expMask, exponent). nat exponent)") auto

definition mulaw_sign :: "int16_t \<Rightarrow> int" where
  "mulaw_sign pcm_val = (if sint pcm_val < 0 then 0x80 else 0)"

definition mulaw_magnitude :: "int16_t \<Rightarrow> int16_t" where
  "mulaw_magnitude pcm_val =
     (let p1 = (if sint pcm_val < 0 then - pcm_val else pcm_val);
          p2 = (if sint p1 > uint CLIP then CLIP else p1)
      in p2 + BIAS)"

definition mulaw_mantissa :: "int16_t \<Rightarrow> int \<Rightarrow> int" where
  "mulaw_mantissa biased exponent =
     drop_bit (if exponent = 0 then 4 else nat (exponent + 3)) (sint biased) AND 0x0F"

definition linear_to_mulaw :: "int16_t \<Rightarrow> uint8_t" where
  "linear_to_mulaw pcm_val =
     (let sign = mulaw_sign pcm_val;
          biased = mulaw_magnitude pcm_val;
          exponent = exponent_loop (sint biased) 0x4000 7;
          mantissa = mulaw_mantissa biased exponent
      in word_of_int (NOT (sign OR push_bit 4 exponent OR mantissa)))"


section \<open>Shared streaming configuration (main.c, global variables)\<close>

text \<open>
  \<open>frame_interval\<close> is a C \<open>float\<close>. Its values are modelled by the real numbers they
  denote, together with the two infinities and NaN, because \<open>fminf\<close> and \<open>fmaxf\<close>
  treat NaN specially (they return the other argument). Rounding to single precision is
  not modelled: a decimal constant such as \<open>0.033f\<close> stands for the real number
  \<open>33/1000\<close>.
\<close>

datatype cfloat = Fin real | PInf | NInf | NaN

fun fminf :: "cfloat \<Rightarrow> cfloat \<Rightarrow> cfloat" where
  "fminf NaN y = y"
| "fminf x NaN = x"
| "fminf NInf y = NInf"
| "fminf x NInf = NInf"
| "fminf PInf y = y"
| "fminf x PInf = x"
| "fminf (Fin a) (Fin b) = Fin (min a b)"

fun fmaxf :: "cfloat \<Rightarrow> cfloat \<Rightarrow> cfloat" where
  "fmaxf NaN y = y"
| "fmaxf x NaN = x"
| "fmaxf PInf y = PInf"
| "fmaxf x PInf = PInf"
| "fmaxf NInf y = y"
| "fmaxf x NInf = x"
| "fmaxf (Fin a) (Fin b) = Fin (max a b)"

text \<open>The resolutions that the \<open>SIZE:\<close> command can select, in the order of its switch.\<close>

datatype framesize_t =
    FRAMESIZE_96X96 | FRAMESIZE_QQVGA | FRAMESIZE_QCIF | FRAMESIZE_HQVGA
  | FRAMESIZE_240X240 | FRAMESIZE_QVGA | FRAMESIZE_CIF | FRAMESIZE_HVGA
  | FRAMESIZE_VGA | FRAMESIZE_SVGA | FRAMESIZE_XGA | FRAMESIZE_HD
  | FRAMESIZE_SXGA | FRAMESIZE_UXGA

record globals =
  ble_device_connected :: bool
  frame_streaming_enabled :: bool
  audio_streaming_enabled :: bool
  capture_image_requested :: bool
  frame_interval :: cfloat
  image_quality :: int
  current_frame_size :: framesize_t

text \<open>The static initialisers of the global variables.\<close>

definition initial_globals :: globals where
  "initial_globals =
     \<lparr> ble_device_connected = False,
       frame_streaming_enabled = False,
       audio_streaming_enabled = False,
       capture_image_requested = False,
       frame_interval = Fin (33 / 1000),
       image_quality = 25,
       current_frame_size = FRAMESIZE_QVGA \<rparr>"

section \<open>Control command interpreter (main.c, handle_control_command)\<close>

text \<open>
  A command is the C string handed to the interpreter: the characters before the first
  NUL, so a \<open>string\<close> without NUL. On such strings \<open>strcmp(a, b) == 0\<close> is equality
  and \<open>strncmp(a, b, n) == 0\<close> is equality of the first \<open>n\<close> characters.
\<close>

definition strcmp_eq :: "string \<Rightarrow> string \<Rightarrow> bool" where
  "strcmp_eq a b = (a = b)"

definition strncmp_eq :: "string \<Rightarrow> string \<Rightarrow> nat \<Rightarrow> bool" where
  "strncmp_eq a b n = (take n a = take n b)"

text \<open>
  \<open>atoi\<close> of the C library, as newlib implements it (\<open>(int) strtol(s, NULL, 10)\<close> with
  a 32-bit \<open>long\<close>): leading white space is skipped, an optional sign is read, then the
  longest run of decimal digits; no digits give 0, and a value outside the range of
  \<open>long\<close> is replaced by the nearest bound.
\<close>

definition isspace :: "char \<Rightarrow> bool" where
  "isspace c = (c = CHR '' '' \<or> (9 \<le> (of_char c :: nat) \<and> (of_char c :: nat) \<le> 13))"

definition isdigit :: "char \<Rightarrow> bool" where
  "isdigit c = (48 \<le> (of_char c :: nat) \<and> (of_char c :: nat) \<le> 57)"

definition digits_value :: "string \<Rightarrow> int" where
  "digits_value ds = foldl (\<lambda>acc c. acc * 10 + (int (of_char c) - 48)) 0 ds"

definition atoi :: "string \<Rightarrow> int" where
  "atoi s =
     (let t = dropWhile isspace s;
          neg = (t \<noteq> [] \<and> hd t = CHR ''-'');
          u = (if t \<noteq> [] \<and> (hd t = CHR ''-'' \<or> hd t = CHR ''+'') then tl t else t);
          v = digits_value (takeWhile isdigit u);
          r = (if neg then - v else v)
      in max (- (2 ^ 31)) (min (2 ^ 31 - 1) r))"

text \<open>
  The camera driver is a collaborator. \<open>esp_camera_sensor_get\<close> returns a sensor or
  NULL; of a sensor only the status that \<open>set_framesize\<close> returns matters to the
  interpreter (\<open>True\<close> stands for \<open>ESP_OK\<close>). The calls made on the sensor are
  returned as a list, in order.
\<close>

type_synonym sensor_t = "framesize_t \<Rightarrow> bool"

datatype sensor_call = Set_quality int | Set_framesize framesize_t

definition size_of_value :: "int \<Rightarrow> framesize_t option" where
  "size_of_value size_value =
     (if size_value = 0 then Some FRAMESIZE_96X96
      else if size_value = 1 then Some FRAMESIZE_QQVGA
      else if size_value = 2 then Some FRAMESIZE_QCIF
      else if size_value = 3 then Some FRAMESIZE_HQVGA
      else if size_value = 4 then Some FRAMESIZE_240X240
      else if size_value = 5 then Some FRAMESIZE_QVGA
      else if size_value = 6 then Some FRAMESIZE_CIF
      else if size_value = 7 then Some FRAMESIZE_HVGA
      else if size_value = 8 then Some FRAMESIZE_VGA
      else if size_value = 9 then Some FRAMESIZE_SVGA
      else if size_value = 10 then Some FRAMESIZE_XGA
      else if size_value = 11 then Some FRAMESIZE_HD
      else if size_value = 12 then Some FRAMESIZE_SXGA
      else if size_value = 13 then Some FRAMESIZE_UXGA
      else None)"

definition clamp_quality :: "int \<Rightarrow> int" where
  "clamp_quality q = (if q < 4 then 4 else if q > 63 then 63 else q)"

text \<open>
  \<open>send_ble_status\<close> formats the status into a local buffer and writes it to the log;
  it changes no variable and calls no collaborator, so the \<open>STATUS\<close> branch returns the
  state as it is. \<open>atof\<close> is taken as a parameter (the C library's parser, with the
  result converted to \<open>float\<close>).
\<close>

definition send_ble_status :: "globals \<Rightarrow> globals" where
  "send_ble_status g = g"

definition handle_control_command ::
  "(string \<Rightarrow> cfloat) \<Rightarrow> sensor_t option \<Rightarrow> string \<Rightarrow> globals \<Rightarrow> globals \<times> sensor_call list" where
  "handle_control_command atof sensor command g =
     (if strcmp_eq command ''CAPTURE'' then (g\<lparr>capture_image_requested := True\<rparr>, [])
      else if strcmp_eq command ''START_FRAMES'' then (g\<lparr>frame_streaming_enabled := True\<rparr>, [])
      else if strcmp_eq command ''STOP_FRAMES'' then (g\<lparr>frame_streaming_enabled := False\<rparr>, [])
      else if strcmp_eq command ''START_AUDIO'' then (g\<lparr>audio_streaming_enabled := True\<rparr>, [])
      else if strcmp_eq command ''STOP_AUDIO'' then (g\<lparr>audio_streaming_enabled := False\<rparr>, [])
      else if strncmp_eq command ''INTERVAL:'' 9 then
        (g\<lparr>frame_interval := fmaxf (Fin (1 / 10)) (fminf (Fin 60) (atof (drop 9 command)))\<rparr>, [])
      else if strncmp_eq command ''QUALITY:'' 8 then
        (let q = clamp_quality (atoi (drop 8 command))
         in (g\<lparr>image_quality := q\<rparr>,
             (case sensor of None \<Rightarrow> [] | Some s \<Rightarrow> [Set_quality q])))
      else if strncmp_eq command ''SIZE:'' 5 then
        (case size_of_value (atoi (drop 5 command)) of
           None \<Rightarrow> (g, [])
         | Some new_frame_size \<Rightarrow>
             (case sensor of
                None \<Rightarrow> (g, [])
              | Some s \<Rightarrow>
                  (if s new_frame_size
                   then (g\<lparr>current_frame_size := new_frame_size\<rparr>, [Set_framesize new_frame_size])
                   else (g, [Set_framesize new_frame_size]))))
      else if strcmp_eq command ''STATUS'' then (send_ble_status g, [])
      else (g, []))"


section \<open>Collaborators: link, heap, camera, and the other tasks\<close>

text \<open>
  The firmware calls the BLE stack, the heap and the camera driver, and it sleeps in
  \<open>vTaskDelay\<close> while the BLE event handlers and the other tasks run. The model makes
  these collaborators explicit: an \<open>environment\<close> fixes what each call returns, indexed
  by the number of earlier calls of the same kind, and what the other parties do to the
  global variables during each sleep (the other parties act at the sleeps only, not in
  the middle of a statement). A \<open>world\<close> is the global variables together with
  the history of calls made so far. Each recorded call carries the value that the
  relevant flag had when the call was made. Log output is not modelled.
\<close>

datatype esp_err_t = ESP_OK | ESP_FAIL

type_synonym size_t = "32 word"

record send_call =
  sc_handle :: uint16_t
  sc_bytes :: "uint8_t list"
  sc_result :: esp_err_t
  sc_connected :: bool

datatype capture_site = Streaming_frame | Single_image

record camera_call =
  cc_site :: capture_site
  cc_requested :: bool
  cc_frame :: "uint8_t list option"

record environment =
  link_send :: "nat \<Rightarrow> esp_err_t"
  heap_alloc :: "nat \<Rightarrow> bool"
  camera :: "nat \<Rightarrow> uint8_t list option"
  interference :: "nat \<Rightarrow> globals \<Rightarrow> globals"
  interval_ticks :: "cfloat \<Rightarrow> uint32_t"
  frame_handle :: uint16_t
  image_handle :: uint16_t
  audio_handle :: uint16_t

record world =
  glob :: globals
  link_calls :: "send_call list"
  camera_calls :: "camera_call list"
  sleeps :: nat
  allocs :: nat

definition esp_ble_gatts_send_indicate ::
  "environment \<Rightarrow> uint16_t \<Rightarrow> uint8_t list \<Rightarrow> world \<Rightarrow> esp_err_t \<times> world" where
  "esp_ble_gatts_send_indicate env char_handle bytes w =
     (let r = link_send env (length (link_calls w))
      in (r, w\<lparr>link_calls := link_calls w @
                  [\<lparr>sc_handle = char_handle, sc_bytes = bytes, sc_result = r,
                    sc_connected = ble_device_connected (glob w)\<rparr>]\<rparr>))"

definition vTaskDelay :: "environment \<Rightarrow> world \<Rightarrow> world" where
  "vTaskDelay env w =
     w\<lparr>glob := interference env (sleeps w) (glob w), sleeps := Suc (sleeps w)\<rparr>"

definition heap_caps_malloc :: "environment \<Rightarrow> world \<Rightarrow> bool \<times> world" where
  "heap_caps_malloc env w = (heap_alloc env (allocs w), w\<lparr>allocs := Suc (allocs w)\<rparr>)"

definition esp_camera_fb_get ::
  "environment \<Rightarrow> capture_site \<Rightarrow> world \<Rightarrow> uint8_t list option \<times> world" where
  "esp_camera_fb_get env site w =
     (let fb = camera env (length (camera_calls w))
      in (fb, w\<lparr>camera_calls := camera_calls w @
                   [\<lparr>cc_site = site,
                     cc_requested = capture_image_requested (glob w),
                     cc_frame = fb\<rparr>]\<rparr>))"

section \<open>Chunked transfer (main.c, send_image_chunks)\<close>

text \<open>
  \<open>size_t\<close> has 32 bits on the target, so lengths, counts, indices and offsets are
  \<open>32 word\<close> and wrap. The image is the byte list behind the pointer (\<open>None\<close> is the
  NULL pointer); the caller passes its length separately, as in C.
\<close>

definition max_chunk_size :: size_t where
  "max_chunk_size = 510"

definition low_byte :: "size_t \<Rightarrow> uint8_t" where
  "low_byte x = ucast (x AND 0xFF)"

definition start_header :: "size_t \<Rightarrow> size_t \<Rightarrow> uint8_t list" where
  "start_header total_chunks image_len =
     [0x01,
      low_byte (drop_bit 8 total_chunks),
      low_byte total_chunks,
      low_byte (drop_bit 0 image_len),
      low_byte (drop_bit 8 image_len),
      low_byte (drop_bit 16 image_len),
      low_byte (drop_bit 24 image_len)]"

definition end_header :: "size_t \<Rightarrow> uint8_t list" where
  "end_header total_chunks =
     [0x03, low_byte (drop_bit 8 total_chunks), low_byte total_chunks]"

definition chunk_packet :: "uint8_t list \<Rightarrow> size_t \<Rightarrow> size_t \<Rightarrow> uint8_t list" where
  "chunk_packet image_data image_len chunk_idx =
     (let offset = chunk_idx * max_chunk_size;
          chunk_size = (if offset + max_chunk_size > image_len
                        then image_len - offset else max_chunk_size)
      in [0x02, low_byte (drop_bit 8 chunk_idx), low_byte chunk_idx]
         @ take (unat chunk_size) (drop (unat offset) image_data))"

text \<open>
  The loop over the chunks. It returns \<open>False\<close> when it left the whole function early
  (the scratch buffer could not be allocated) and \<open>True\<close> when it ran to its end.
\<close>

function send_chunks ::
  "environment \<Rightarrow> uint8_t list \<Rightarrow> size_t \<Rightarrow> uint16_t \<Rightarrow> size_t \<Rightarrow> size_t \<Rightarrow> world \<Rightarrow> bool \<times> world" where
  "send_chunks env image_data image_len char_handle total_chunks chunk_idx w =
     (if chunk_idx < total_chunks then
        (case heap_caps_malloc env w of
           (False, w1) \<Rightarrow> (False, w1)
         | (True, w1) \<Rightarrow>
             (case esp_ble_gatts_send_indicate env char_handle
                     (chunk_packet image_data image_len chunk_idx) w1 of
                (ret, w2) \<Rightarrow>
                  send_chunks env image_data image_len char_handle total_chunks
                    (chunk_idx + 1) (vTaskDelay env w2)))
      else (True, w))"
  by pat_completeness auto
termination
proof (relation "measure (\<lambda>(env, image_data, image_len, char_handle, total_chunks, chunk_idx, w).
                    unat total_chunks - unat chunk_idx)")
  show "wf (measure (\<lambda>(env, image_data, image_len, char_handle, total_chunks, chunk_idx, w).
                    unat total_chunks - unat chunk_idx))"
    by simp
next
  fix env :: environment and image_data :: "uint8_t list" and image_len :: size_t
    and char_handle :: uint16_t and total_chunks chunk_idx :: size_t and w :: world
    and x :: "bool \<times> world" and x1 :: bool and w1 :: world
    and y :: "esp_err_t \<times> world" and ret :: esp_err_t and w2 :: world
  assume lt: "chunk_idx < total_chunks"
  from lt have "unat chunk_idx < unat total_chunks"
    by (simp add: word_less_nat_alt)
  moreover have "unat total_chunks < 2 ^ LENGTH(32)"
    by (rule unsigned_less)
  ultimately have "unat chunk_idx + unat (1 :: size_t) < 2 ^ LENGTH(32)"
    by simp
  then have "unat (chunk_idx + 1) = unat chunk_idx + unat (1 :: size_t)"
    by (simp only: unat_add_lem)
  with \<open>unat chunk_idx < unat total_chunks\<close> show
    "((env, image_data, image_len, char_handle, total_chunks, chunk_idx + 1, vTaskDelay env w2),
      (env, image_data, image_len, char_handle, total_chunks, chunk_idx, w))
     \<in> measure (\<lambda>(env, image_data, image_len, char_handle, total_chunks, chunk_idx, w).
                    unat total_chunks - unat chunk_idx)"
    by simp
qed

declare send_chunks.simps [simp del]

definition send_image_chunks ::
  "environment \<Rightarrow> uint8_t list option \<Rightarrow> size_t \<Rightarrow> uint16_t \<Rightarrow> world \<Rightarrow> world" where
  "send_image_chunks env image_data image_len char_handle w =
     (case image_data of
        None \<Rightarrow> w
      | Some data \<Rightarrow>
          if \<not> ble_device_connected (glob w) \<or> image_len = 0 then w
          else
            (let total_chunks = (image_len + max_chunk_size - 1) div max_chunk_size
             in case esp_ble_gatts_send_indicate env char_handle
                       (start_header total_chunks image_len) w of
                  (header_ret, w1) \<Rightarrow>
                    if header_ret \<noteq> ESP_OK then w1
                    else
                      (case send_chunks env data image_len char_handle total_chunks 0
                              (vTaskDelay env w1) of
                         (False, w2) \<Rightarrow> w2
                       | (True, w2) \<Rightarrow>
                           snd (esp_ble_gatts_send_indicate env char_handle
                                  (end_header total_chunks) w2))))"


section \<open>GATT server events (main.c, gatts_profile_a_event_handler)\<close>

text \<open>
  Only the events that touch the modelled state are distinguished. A write event carries
  the attribute handle, the declared length and the value; the BLE stack delivers a value
  of exactly the declared length.

  The write case copies the value into the local array \<^verbatim>\<open>char command[256]\<close> and
  stores a terminator behind it. The array is a byte list of length 256 and every store
  is checked against its bounds: a store outside is the \<open>fault\<close> \<open>Out_of_bounds\<close>
  carrying the first offending index (\<open>Source_overread\<close> is a copy that asks for more
  bytes than the value has, which the BLE stack never delivers). The array is not initialised in C; \<open>junk\<close> gives its contents on
  entry.
\<close>

record write_evt =
  wr_is_prep :: bool
  wr_handle :: uint16_t
  wr_len :: uint16_t
  wr_value :: "uint8_t list"

datatype gatts_event =
    ESP_GATTS_WRITE_EVT write_evt
  | ESP_GATTS_CONNECT_EVT
  | ESP_GATTS_DISCONNECT_EVT
  | ESP_GATTS_OTHER_EVT

datatype fault = Out_of_bounds nat | Source_overread nat

definition command_size :: nat where
  "command_size = 256"

definition memcpy_checked :: "uint8_t list \<Rightarrow> uint8_t list \<Rightarrow> nat \<Rightarrow> fault + uint8_t list" where
  "memcpy_checked dst src n =
     (if length src < n then Inl (Source_overread (length src))
      else if n \<le> length dst then Inr (take n src @ drop n dst)
      else Inl (Out_of_bounds (length dst)))"

definition store_checked :: "uint8_t list \<Rightarrow> nat \<Rightarrow> uint8_t \<Rightarrow> fault + uint8_t list" where
  "store_checked buf i v =
     (if i < length buf then Inr (buf[i := v]) else Inl (Out_of_bounds i))"

definition c_string :: "uint8_t list \<Rightarrow> string" where
  "c_string buf = map (\<lambda>b. char_of (unat b)) (takeWhile (\<lambda>b. b \<noteq> 0) buf)"

definition control_write ::
  "(nat \<Rightarrow> uint8_t) \<Rightarrow> write_evt \<Rightarrow> fault + string" where
  "control_write junk ev =
     (case memcpy_checked (map junk [0..<command_size]) (wr_value ev) (unat (wr_len ev)) of
        Inl f \<Rightarrow> Inl f
      | Inr command \<Rightarrow>
          (case store_checked command (unat (wr_len ev)) 0 of
             Inl f \<Rightarrow> Inl f
           | Inr command' \<Rightarrow> Inr (c_string command')))"

definition gatts_profile_a_event_handler ::
  "(string \<Rightarrow> cfloat) \<Rightarrow> sensor_t option \<Rightarrow> uint16_t \<Rightarrow> (nat \<Rightarrow> uint8_t)
     \<Rightarrow> gatts_event \<Rightarrow> globals \<Rightarrow> fault + globals \<times> sensor_call list" where
  "gatts_profile_a_event_handler atof sensor control_handle junk event g =
     (case event of
        ESP_GATTS_WRITE_EVT ev \<Rightarrow>
          if \<not> wr_is_prep ev \<and> wr_handle ev = control_handle then
            (case control_write junk ev of
               Inl f \<Rightarrow> Inl f
             | Inr command \<Rightarrow> Inr (handle_control_command atof sensor command g))
          else Inr (g, [])
      | ESP_GATTS_CONNECT_EVT \<Rightarrow> Inr (send_ble_status (g\<lparr>ble_device_connected := True\<rparr>), [])
      | ESP_GATTS_DISCONNECT_EVT \<Rightarrow> Inr (g\<lparr>ble_device_connected := False\<rparr>, [])
      | ESP_GATTS_OTHER_EVT \<Rightarrow> Inr (g, []))"

section \<open>Video producer loop (main.c, streaming_task)\<close>

text \<open>
  One pass through the body of \<^verbatim>\<open>while (true)\<close>. The local variables that live across
  passes are a record; the tick count read at the top of the pass is an argument. A frame
  is the JPEG byte list of the frame buffer, whose \<open>len\<close> field is the list's length.
  \<open>interval_ticks\<close> of the environment stands for
  \<^verbatim>\<open>pdMS_TO_TICKS((int)(frame_interval * 1000))\<close>, which depends on the tick rate of
  the build.
\<close>

record streaming_locals =
  last_frame_time :: uint32_t
  frame_count :: uint32_t
  failed_frames :: uint32_t

definition initial_locals :: streaming_locals where
  "initial_locals = \<lparr> last_frame_time = 0, frame_count = 0, failed_frames = 0 \<rparr>"

definition serve_capture_request :: "environment \<Rightarrow> world \<Rightarrow> world" where
  "serve_capture_request env w =
     (if capture_image_requested (glob w) \<and> ble_device_connected (glob w) then
        (case esp_camera_fb_get env Single_image
                (w\<lparr>glob := (glob w)\<lparr>capture_image_requested := False\<rparr>\<rparr>) of
           (None, w1) \<Rightarrow> w1
         | (Some buf, w1) \<Rightarrow>
             send_image_chunks env (Some buf) (of_nat (length buf)) (image_handle env) w1)
      else w)"

definition streaming_iteration ::
  "environment \<Rightarrow> uint32_t \<Rightarrow> streaming_locals \<times> world \<Rightarrow> streaming_locals \<times> world" where
  "streaming_iteration env current_time lw =
     (case lw of (l, w) \<Rightarrow>
        if frame_streaming_enabled (glob w) \<and> ble_device_connected (glob w)
           \<and> current_time - last_frame_time l \<ge> interval_ticks env (frame_interval (glob w))
        then
          (case esp_camera_fb_get env Streaming_frame w of
             (None, w1) \<Rightarrow>
               (l\<lparr>failed_frames := failed_frames l + 1, last_frame_time := current_time\<rparr>,
                vTaskDelay env w1)
           | (Some buf, w1) \<Rightarrow>
               (l\<lparr>last_frame_time := current_time, frame_count := frame_count l + 1\<rparr>,
                vTaskDelay env
                  (serve_capture_request env
                     (send_image_chunks env (Some buf) (of_nat (length buf)) (frame_handle env) w1))))
        else (l, vTaskDelay env (serve_capture_request env w)))"

section \<open>Audio gate and encoder (main.c, send_audio_data)\<close>

text \<open>
  \<open>isqrt\<close> stands for \<^verbatim>\<open>sqrt\<close> followed by the conversion of the \<open>double\<close> to an
  integer: on arguments below \<open>2^32\<close> that is the integer square root.
\<close>

function isqrt :: "nat \<Rightarrow> nat" where
  "isqrt n =
     (if n = 0 then 0
      else (let r = 2 * isqrt (n div 4)
            in if (r + 1) * (r + 1) \<le> n then r + 1 else r))"
  by pat_completeness auto
termination
  by (relation "measure (\<lambda>n. n)") auto

text \<open>
  The function-local statics. \<open>i2s_read\<close> delivers a status and whole samples
  (\<open>bytes_read\<close> is twice their number). The sum of squares is an \<open>int32_t\<close> and wraps;
  dividing it by the \<open>size_t\<close> sample count is an unsigned division; the conversion of
  the root to \<open>int16_t\<close> keeps the low 16 bits. \<open>rms_level / 4\<close> truncates towards
  zero (\<open>sdiv\<close>).
\<close>

record audio_static =
  adaptive_threshold :: int16_t
  prev_sample :: int16_t

definition initial_audio_static :: audio_static where
  "initial_audio_static = \<lparr> adaptive_threshold = 50, prev_sample = 0 \<rparr>"

definition rms_sum :: "int16_t list \<Rightarrow> uint32_t" where
  "rms_sum samples = foldl (\<lambda>acc s. acc + word_of_int (sint s * sint s)) 0 samples"

definition rms_level :: "int16_t list \<Rightarrow> int16_t" where
  "rms_level samples =
     of_nat (isqrt (unat (rms_sum samples div of_nat (length samples))))"

definition dc_filter :: "int16_t \<Rightarrow> int16_t \<Rightarrow> int16_t" where
  "dc_filter prev sample = word_of_int (sint sample - drop_bit 4 (sint prev * 15))"

fun encode_samples :: "int16_t \<Rightarrow> int16_t list \<Rightarrow> uint8_t list \<times> int16_t" where
  "encode_samples prev [] = ([], prev)"
| "encode_samples prev (sample # rest) =
     (case encode_samples sample rest of
        (bytes, p) \<Rightarrow> (linear_to_mulaw (dc_filter prev sample) # bytes, p))"

definition update_threshold :: "int16_t \<Rightarrow> int16_t \<Rightarrow> int16_t" where
  "update_threshold rms threshold =
     (if sint rms > sint threshold * 2 then word_of_int (sint rms sdiv 4) else threshold)"

definition send_audio_data ::
  "environment \<Rightarrow> bool \<Rightarrow> esp_err_t \<times> int16_t list \<Rightarrow> audio_static \<times> world
     \<Rightarrow> audio_static \<times> world" where
  "send_audio_data env audio_ready i2s aw =
     (case aw of (a, w) \<Rightarrow>
        if \<not> ble_device_connected (glob w) \<or> \<not> audio_ready then (a, w)
        else
          (case i2s of (i2s_ret, samples) \<Rightarrow>
             if i2s_ret \<noteq> ESP_OK then (a, w)
             else if samples = [] then (a, w)
             else
               (let rms = rms_level samples;
                    a1 = a\<lparr>adaptive_threshold := update_threshold rms (adaptive_threshold a)\<rparr>
                in if sint rms < sint (adaptive_threshold a1) then (a1, w)
                   else
                     (case encode_samples (prev_sample a1) samples of
                        (mulaw, p) \<Rightarrow>
                          (a1\<lparr>prev_sample := p\<rparr>,
                           snd (esp_ble_gatts_send_indicate env (audio_handle env) mulaw w))))))"


section \<open>Reachable states and wire encodings used in the statements\<close>

text \<open>
  The global variables are written by the GATT event handler (connect, disconnect and
  control writes) and, for \<open>capture_image_requested\<close> alone, by the streaming task
  when it takes up a capture request. A configuration is reachable when these steps lead
  to it from the static initialisers. The reachability predicate carries one bit of
  history: whether a control write whose command begins with \<open>INTERVAL:\<close> has been
  handled on the way.
\<close>

definition is_interval_write :: "uint16_t \<Rightarrow> (nat \<Rightarrow> uint8_t) \<Rightarrow> gatts_event \<Rightarrow> bool" where
  "is_interval_write control_handle junk event =
     (case event of
        ESP_GATTS_WRITE_EVT ev \<Rightarrow>
          \<not> wr_is_prep ev \<and> wr_handle ev = control_handle
          \<and> (case control_write junk ev of
                Inl f \<Rightarrow> False
              | Inr command \<Rightarrow> strncmp_eq command ''INTERVAL:'' 9)
      | ESP_GATTS_CONNECT_EVT \<Rightarrow> False
      | ESP_GATTS_DISCONNECT_EVT \<Rightarrow> False
      | ESP_GATTS_OTHER_EVT \<Rightarrow> False)"

inductive reachable_hist :: "bool \<Rightarrow> globals \<Rightarrow> bool" where
  hist_init: "reachable_hist False initial_globals"
| hist_event:
    "reachable_hist b g \<Longrightarrow>
     gatts_profile_a_event_handler atof sensor control_handle junk event g = Inr (g', calls) \<Longrightarrow>
     reachable_hist (b \<or> is_interval_write control_handle junk event) g'"
| hist_served: "reachable_hist b g \<Longrightarrow> reachable_hist b (g\<lparr>capture_image_requested := False\<rparr>)"

text \<open>The statics of \<open>send_audio_data\<close> reachable through calls of the function.\<close>

inductive audio_reachable :: "audio_static \<Rightarrow> bool" where
  audio_init: "audio_reachable initial_audio_static"
| audio_step:
    "audio_reachable a \<Longrightarrow> audio_reachable (fst (send_audio_data env audio_ready i2s (a, w)))"

text \<open>
  The byte encodings that the wire format names, written from their definition: a 16-bit
  value most significant byte first, a 32-bit value least significant byte first.
\<close>

definition be16 :: "nat \<Rightarrow> uint8_t list" where
  "be16 n = [of_nat (n div 256), of_nat (n mod 256)]"

definition le32 :: "nat \<Rightarrow> uint8_t list" where
  "le32 n = [of_nat (n mod 256), of_nat (n div 256 mod 256),
             of_nat (n div 65536 mod 256), of_nat (n div 16777216 mod 256)]"

definition be16_value :: "uint8_t list \<Rightarrow> nat" where
  "be16_value bs = unat (bs ! 0) * 256 + unat (bs ! 1)"

definition le32_value :: "uint8_t list \<Rightarrow> nat" where
  "le32_value bs = unat (bs ! 0) + 256 * unat (bs ! 1) + 65536 * unat (bs ! 2)
                   + 16777216 * unat (bs ! 3)"

text \<open>The packets handed to the link between two worlds, oldest first.\<close>

definition packets_since :: "world \<Rightarrow> world \<Rightarrow> uint8_t list list" where
  "packets_since w w' = map sc_bytes (drop (length (link_calls w)) (link_calls w'))"

section \<open>Concrete environments and worlds for evaluation\<close>

text \<open>
  \<open>calm_env\<close>: every send and every allocation succeeds, the camera has no frame and
  nobody touches the globals. \<open>failing_link_env\<close>: the link refuses every send.
  \<open>no_heap_env\<close>: no scratch buffer can be allocated.
  \<open>lossy_env\<close>: the link accepts the first send and refuses all later ones.
  \<open>disconnecting_env\<close>: as \<open>lossy_env\<close>, and the disconnect event is handled while the
  sender sleeps for the first time. \<open>connected_world\<close>: the initial globals with the
  link up and an empty call history.
\<close>

definition calm_env :: environment where
  "calm_env =
     \<lparr> link_send = (\<lambda>k. ESP_OK), heap_alloc = (\<lambda>k. True), camera = (\<lambda>k. None),
       interference = (\<lambda>k g. g), interval_ticks = (\<lambda>f. 33),
       frame_handle = 46, image_handle = 44, audio_handle = 48 \<rparr>"

definition connected_world :: world where
  "connected_world =
     \<lparr> glob = initial_globals\<lparr>ble_device_connected := True\<rparr>,
       link_calls = [], camera_calls = [], sleeps = 0, allocs = 0 \<rparr>"

definition failing_link_env :: environment where
  "failing_link_env = calm_env\<lparr>link_send := (\<lambda>k. ESP_FAIL)\<rparr>"


definition no_heap_env :: environment where
  "no_heap_env = calm_env\<lparr>heap_alloc := (\<lambda>k. False)\<rparr>"

definition lossy_env :: environment where
  "lossy_env = calm_env\<lparr>link_send := (\<lambda>k. if k = 0 then ESP_OK else ESP_FAIL)\<rparr>"


text \<open>
  \<open>streaming_world\<close>: link up, frame streaming on and a capture request pending.
  \<open>waiting_world\<close>: link up, frame streaming off and a capture request pending.
  \<open>single_attempts\<close> counts the camera calls made for single captures.
\<close>

definition streaming_world :: world where
  "streaming_world =
     connected_world\<lparr>glob := (glob connected_world)\<lparr>frame_streaming_enabled := True,
                                                   capture_image_requested := True\<rparr>\<rparr>"




text \<open>A control write of the twelve characters \<open>INTERVAL:100\<close>.\<close>

definition interval_write :: write_evt where
  "interval_write =
     \<lparr> wr_is_prep = False, wr_handle = 42, wr_len = 12,
       wr_value = [0x49, 0x4E, 0x54, 0x45, 0x52, 0x56, 0x41, 0x4C, 0x3A, 0x31, 0x30, 0x30] \<rparr>"


section \<open>Properties of the mu-law encoder\<close>

lemma sint_neg_int16:
  fixes x :: int16_t
  assumes "x \<noteq> - 32768"
  shows "sint (- x) = - sint x"
proof -
  have ne: "sint x \<noteq> - 32768"
  proof
    assume "sint x = - 32768"
    then have "word_of_int (sint x) = (word_of_int (- 32768) :: int16_t)" by simp
    then show False using assms by simp
  qed
  have "- (2 ^ (LENGTH(16) - 1)) \<le> sint x" by (rule sint_ge)
  moreover have "sint x < 2 ^ (LENGTH(16) - 1)" by (rule sint_lt)
  ultimately have r: "- 32767 \<le> sint x" "sint x \<le> 32767" using ne by simp_all
  have "sint (- x) = signed_take_bit (LENGTH(16) - 1) (- sint x)"
    by (simp add: sint_word_ariths)
  also have "\<dots> = - sint x"
    using r by (simp add: signed_take_bit_int_eq_self)
  finally show ?thesis .
qed

lemma mulaw_magnitude_clip_pos:
  "sint x > 32635 \<Longrightarrow> mulaw_magnitude x = CLIP + BIAS"
  by (simp add: mulaw_magnitude_def CLIP_def Let_def)

lemma mulaw_magnitude_clip_neg:
  assumes "sint x < - 32635" "x \<noteq> - 32768"
  shows "mulaw_magnitude x = CLIP + BIAS"
  using assms by (simp add: mulaw_magnitude_def CLIP_def Let_def sint_neg_int16)

text \<open>
  Away from the most negative sample the clip saturates: every sample above the ceiling
  encodes as the ceiling does, and every sample below its negation, except \<open>-32768\<close>,
  encodes as the negated ceiling does.
\<close>

lemma linear_to_mulaw_clip_pos:
  assumes "sint x > 32635"
  shows "linear_to_mulaw x = linear_to_mulaw 32635"
proof -
  have "mulaw_magnitude x = mulaw_magnitude 32635"
    using assms by (simp add: mulaw_magnitude_clip_pos) (simp add: mulaw_magnitude_def CLIP_def)
  moreover have "mulaw_sign x = mulaw_sign 32635"
    using assms by (simp add: mulaw_sign_def)
  ultimately show ?thesis by (simp add: linear_to_mulaw_def)
qed

lemma linear_to_mulaw_clip_neg:
  assumes "sint x < - 32635" "x \<noteq> - 32768"
  shows "linear_to_mulaw x = linear_to_mulaw (- 32635)"
proof -
  have "mulaw_magnitude x = mulaw_magnitude (- 32635)"
    using assms by (simp add: mulaw_magnitude_clip_neg) (simp add: mulaw_magnitude_def CLIP_def)
  moreover have "mulaw_sign x = mulaw_sign (- 32635)"
    using assms by (simp add: mulaw_sign_def)
  ultimately show ?thesis by (simp add: linear_to_mulaw_def)
qed

text \<open>
  Claim C7. The claim asks that every sample whose magnitude exceeds the clip ceiling
  32635 encodes as the sign-preserved ceiling does. The sample \<open>-32768\<close> exceeds it, but
  its negation does not fit in \<open>int16_t\<close> and stays \<open>-32768\<close>, the comparison with the
  ceiling is signed and fails, and adding the bias gives \<open>-32636\<close>: the encoder returns
  \<open>0x77\<close> (sign bit set, exponent 0, mantissa 8, inverted), where the negated ceiling
  \<open>-32635\<close> encodes as \<open>0x00\<close>.
\<close>

theorem linear_to_mulaw_int16_min:
  "linear_to_mulaw (- 32768) = 0x77 \<and> linear_to_mulaw (- 32635) = 0x00
   \<and> sint (- 32768 :: int16_t) < - 32635"
  by (simp add: linear_to_mulaw_def mulaw_sign_def mulaw_magnitude_def mulaw_mantissa_def
        BIAS_def CLIP_def)

section \<open>Properties of the chunked transfer\<close>

lemma low_byte_unat: "unat (low_byte x) = unat x mod 256"
proof -
  have "x AND 0xFF = take_bit 8 x"
    by (simp add: take_bit_eq_mask mask_eq_exp_minus_1)
  then show ?thesis
    by (simp add: low_byte_def unsigned_ucast_eq unsigned_take_bit_eq take_bit_eq_mod unat_mod_distrib)
qed

lemma low_byte_of_nat: "low_byte x = of_nat (unat x mod 256)"
  by (simp add: word_unat_eq_iff low_byte_unat unsigned_of_nat take_bit_eq_mod)

lemma unat_total_chunks:
  assumes "unat image_len + 509 < 2 ^ 32"
  shows "unat ((image_len + max_chunk_size - 1) div max_chunk_size) = (unat image_len + 509) div 510"
proof -
  have e: "image_len + max_chunk_size - 1 = image_len + 509"
    by (simp add: max_chunk_size_def)
  have "unat image_len + unat (509 :: size_t) < 2 ^ LENGTH(32)"
    using assms by simp
  then have "unat (image_len + 509) = unat image_len + unat (509 :: size_t)"
    by (simp only: unat_add_lem)
  then have "unat (image_len + 509) = unat image_len + 509" by simp
  then show ?thesis
    unfolding e by (simp add: unat_div max_chunk_size_def)
qed


lemma packets_since_append:
  "link_calls w' = link_calls w @ cs \<Longrightarrow> packets_since w w' = map sc_bytes cs"
  by (simp add: packets_since_def)

lemma send_chunks_calls:
  assumes "\<forall>k. heap_alloc env k"
  shows "fst (send_chunks env d len h tc idx w) \<and>
         (\<exists>cs. link_calls (snd (send_chunks env d len h tc idx w)) = link_calls w @ cs
            \<and> map sc_bytes cs = map (\<lambda>i. chunk_packet d len (of_nat i)) [unat idx ..< unat tc])"
  using assms
proof (induction env d len h tc idx w rule: send_chunks.induct)
  case (1 env d len h tc idx w)
  show ?case
  proof (cases "idx < tc")
    case False
    then have "unat tc \<le> unat idx" by (simp add: word_less_nat_alt)
    with False show ?thesis by (subst send_chunks.simps, subst (2) send_chunks.simps) simp
  next
    case True
    then have lt: "unat idx < unat tc" by (simp add: word_less_nat_alt)
    have "unat tc < 2 ^ LENGTH(32)" by (rule unsigned_less)
    with lt have "unat idx + unat (1 :: size_t) < 2 ^ LENGTH(32)" by simp
    then have "unat (idx + 1) = unat idx + unat (1 :: size_t)" by (simp only: unat_add_lem)
    then have suc: "unat (idx + 1) = Suc (unat idx)" by simp
    have up: "[unat idx ..< unat tc] = unat idx # [Suc (unat idx) ..< unat tc]"
      using lt by (simp add: upt_conv_Cons)
    define w1 where "w1 = snd (heap_caps_malloc env w)"
    define w2 where "w2 = snd (esp_ble_gatts_send_indicate env h (chunk_packet d len idx) w1)"
    have m: "heap_caps_malloc env w = (True, w1)"
      using 1(2) by (simp add: w1_def heap_caps_malloc_def)
    have s: "esp_ble_gatts_send_indicate env h (chunk_packet d len idx) w1
               = (fst (esp_ble_gatts_send_indicate env h (chunk_packet d len idx) w1), w2)"
      by (simp add: w2_def)
    have step: "send_chunks env d len h tc idx w = send_chunks env d len h tc (idx + 1) (vTaskDelay env w2)"
      using True m by (subst send_chunks.simps) (simp add: w2_def case_prod_beta)
    from 1(1)[OF True m[symmetric] refl s[symmetric] 1(2)]
    obtain cs where ih: "fst (send_chunks env d len h tc (idx + 1) (vTaskDelay env w2))"
       "link_calls (snd (send_chunks env d len h tc (idx + 1) (vTaskDelay env w2)))
           = link_calls (vTaskDelay env w2) @ cs"
       "map sc_bytes cs = map (\<lambda>i. chunk_packet d len (of_nat i)) [unat (idx + 1) ..< unat tc]"
      by blast
    obtain c where calls: "link_calls (vTaskDelay env w2) = link_calls w @ [c]" "sc_bytes c = chunk_packet d len idx"
      by (simp add: vTaskDelay_def w2_def w1_def esp_ble_gatts_send_indicate_def heap_caps_malloc_def Let_def)
    have "link_calls (snd (send_chunks env d len h tc idx w)) = link_calls w @ (c # cs)"
      unfolding step using ih(2) calls(1) by simp
    moreover have "map sc_bytes (c # cs) = map (\<lambda>i. chunk_packet d len (of_nat i)) [unat idx ..< unat tc]"
      using ih(3) calls(2) by (simp add: up suc)
    ultimately show ?thesis unfolding step using ih(1) by blast
  qed
qed

lemma send_image_chunks_packets:
  assumes conn: "ble_device_connected (glob w)"
    and nz: "image_len \<noteq> 0"
    and hdr: "link_send env (length (link_calls w)) = ESP_OK"
    and heap: "\<forall>k. heap_alloc env k"
  shows "packets_since w (send_image_chunks env (Some d) image_len h w)
         = start_header ((image_len + max_chunk_size - 1) div max_chunk_size) image_len
           # map (\<lambda>i. chunk_packet d image_len (of_nat i))
               [0 ..< unat ((image_len + max_chunk_size - 1) div max_chunk_size)]
           @ [end_header ((image_len + max_chunk_size - 1) div max_chunk_size)]"
proof -
  define tc where "tc = (image_len + max_chunk_size - 1) div max_chunk_size"
  define w1 where "w1 = snd (esp_ble_gatts_send_indicate env h (start_header tc image_len) w)"
  define r where "r = send_chunks env d image_len h tc 0 (vTaskDelay env w1)"
  have s1: "esp_ble_gatts_send_indicate env h (start_header tc image_len) w = (ESP_OK, w1)"
    using hdr by (simp add: w1_def esp_ble_gatts_send_indicate_def Let_def)
  obtain c1 where c1: "link_calls (vTaskDelay env w1) = link_calls w @ [c1]"
      "sc_bytes c1 = start_header tc image_len"
    by (simp add: w1_def vTaskDelay_def esp_ble_gatts_send_indicate_def Let_def)
  from send_chunks_calls[OF heap, of d image_len h tc 0 "vTaskDelay env w1"]
  obtain cs where r: "fst r" "link_calls (snd r) = link_calls (vTaskDelay env w1) @ cs"
      "map sc_bytes cs = map (\<lambda>i. chunk_packet d image_len (of_nat i)) [0 ..< unat tc]"
    unfolding r_def by auto
  have res: "send_image_chunks env (Some d) image_len h w
        = snd (esp_ble_gatts_send_indicate env h (end_header tc) (snd r))"
    using conn nz s1 r(1)
    by (simp add: send_image_chunks_def Let_def tc_def[symmetric] r_def[symmetric] case_prod_beta)
  obtain c3 where c3: "link_calls (snd (esp_ble_gatts_send_indicate env h (end_header tc) (snd r)))
        = link_calls (snd r) @ [c3]" "sc_bytes c3 = end_header tc"
    by (simp add: esp_ble_gatts_send_indicate_def Let_def)
  have "link_calls (send_image_chunks env (Some d) image_len h w) = link_calls w @ (c1 # cs @ [c3])"
    unfolding res using c3(1) r(2) c1(1) by simp
  from packets_since_append[OF this] show ?thesis
    using c1(2) r(3) c3(2) by (simp add: tc_def)
qed

lemma concat_take_drop:
  "concat (map (\<lambda>i. take m (drop (i * m) xs)) [0..<k]) = take (k * m) xs"
proof (induction k)
  case 0
  show ?case by simp
next
  case (Suc k)
  have "Suc k * m = k * m + m" by simp
  then have "take (Suc k * m) xs = take (k * m) xs @ take m (drop (k * m) xs)"
    by (simp only: take_add)
  with Suc show ?case by simp
qed

lemma be16_low_bytes:
  assumes "unat x < 65536"
  shows "[low_byte (drop_bit 8 x), low_byte x] = be16 (unat x)"
proof -
  have "unat x div 256 mod 256 = unat x div 256"
    using assms by simp
  then show ?thesis
    by (simp add: be16_def low_byte_of_nat drop_bit_eq_div unat_div)
qed

lemma le32_low_bytes:
  "[low_byte (drop_bit 0 x), low_byte (drop_bit 8 x), low_byte (drop_bit 16 x), low_byte (drop_bit 24 x)]
     = le32 (unat x)"
  by (simp add: le32_def low_byte_of_nat drop_bit_eq_div unat_div)

lemma be16_value_be16: "n < 65536 \<Longrightarrow> be16_value (be16 n) = n"
  by (simp add: be16_value_def be16_def unsigned_of_nat take_bit_eq_mod)

lemma le32_value_le32:
  assumes "n < 2 ^ 32"
  shows "le32_value (le32 n) = n"
proof -
  define q1 q2 q3 where "q1 = n div 256" and "q2 = q1 div 256" and "q3 = q2 div 256"
  have d: "n div 65536 = q2" "n div 16777216 = q3"
    by (simp_all add: q1_def q2_def q3_def div_mult2_eq)
  have e1: "n = n mod 256 + 256 * q1" unfolding q1_def by simp
  have e2: "q1 = q1 mod 256 + 256 * q2" unfolding q2_def by simp
  have e3: "q2 = q2 mod 256 + 256 * q3" unfolding q3_def by simp
  have "q3 < 256" using assms unfolding d(2)[symmetric] by simp
  then have m3: "q3 mod 256 = q3" by simp
  have "le32_value (le32 n) = n mod 256 + 256 * (q1 mod 256) + 65536 * (q2 mod 256) + 16777216 * q3"
    by (simp add: le32_value_def le32_def unsigned_of_nat take_bit_eq_mod d m3 q1_def[symmetric])
  also have "\<dots> = n" using e1 e2 e3 by linarith
  finally show ?thesis .
qed

lemma unat_of_nat_size_t: "i < 2 ^ 32 \<Longrightarrow> unat (of_nat i :: size_t) = i"
  by (simp add: unsigned_of_nat take_bit_nat_eq_self)

lemma chunk_packet_payload:
  assumes L: "unat image_len = length B"
    and bnd: "length B + 509 < 2 ^ 32"
    and i: "i < (length B + 509) div 510"
  shows "chunk_packet B image_len (of_nat i)
         = [0x02, low_byte (drop_bit 8 (of_nat i)), low_byte (of_nat i)] @ take 510 (drop (i * 510) B)"
proof -
  from i have i510: "i * 510 + 510 \<le> length B + 509" by simp
  with bnd have ib: "i < 2 ^ 32" "i * 510 + 510 < 2 ^ 32" by simp_all
  have ui: "unat (of_nat i :: size_t) = i" using ib(1) by (rule unat_of_nat_size_t)
  have "unat (of_nat i :: size_t) * unat (510 :: size_t) < 2 ^ LENGTH(32)"
    using ib(2) ui by simp
  then have "unat ((of_nat i :: size_t) * 510) = unat (of_nat i :: size_t) * unat (510 :: size_t)"
    by (simp only: unat_mult_lem)
  then have uo: "unat ((of_nat i :: size_t) * 510) = i * 510" using ui by simp
  have "unat ((of_nat i :: size_t) * 510) + unat (510 :: size_t) < 2 ^ LENGTH(32)"
    using ib(2) uo by simp
  then have "unat ((of_nat i :: size_t) * 510 + 510) = unat ((of_nat i :: size_t) * 510) + unat (510 :: size_t)"
    by (simp only: unat_add_lem)
  then have us: "unat ((of_nat i :: size_t) * 510 + 510) = i * 510 + 510" using uo by simp
  have cmp: "((of_nat i :: size_t) * 510 + 510 > image_len) = (i * 510 + 510 > length B)"
    by (simp add: word_less_nat_alt us L)
  show ?thesis
  proof (cases "i * 510 + 510 > length B")
    case True
    have le: "i * 510 \<le> length B" using i510 True by simp
    have "(of_nat i :: size_t) * 510 \<le> image_len"
      using le by (simp add: word_le_nat_alt uo L)
    then have "unat (image_len - (of_nat i :: size_t) * 510) = length B - i * 510"
      by (simp add: unat_sub uo L)
    moreover have "take (length B - i * 510) (drop (i * 510) B) = take 510 (drop (i * 510) B)"
      using True by simp
    ultimately show ?thesis
      using True cmp by (simp add: chunk_packet_def max_chunk_size_def Let_def uo)
  next
    case False
    then show ?thesis
      using cmp by (simp add: chunk_packet_def max_chunk_size_def Let_def uo)
  qed
qed


lemma payload_length:
  assumes "0 < length B" and "i < (length B + 509) div 510"
  shows "length (take 510 (drop (i * 510) B))
         = (if i + 1 < (length B + 509) div 510 then 510
            else length B - ((length B + 509) div 510 - 1) * 510)"
proof -
  define n where "n = (length B + 509) div 510"
  have "n * 510 \<le> length B + 509" unfolding n_def by simp
  moreover have "length B + 509 < (n + 1) * 510"
  proof -
    have "(length B + 509) mod 510 < 510" by simp
    moreover have "n * 510 + (length B + 509) mod 510 = length B + 509"
      unfolding n_def by (rule div_mult_mod_eq)
    ultimately show ?thesis by simp
  qed
  moreover have "0 < n" using assms(2) unfolding n_def by simp
  ultimately have n1: "(n - 1) * 510 < length B" "length B \<le> n * 510"
    by (simp_all add: algebra_simps)
  show ?thesis
  proof (cases "i + 1 < n")
    case True
    then have "(i + 1) * 510 \<le> (n - 1) * 510" by simp
    with n1(1) have "i * 510 + 510 \<le> length B" by simp
    with True show ?thesis unfolding n_def[symmetric] by simp
  next
    case False
    with assms(2) have "i = n - 1" unfolding n_def by simp
    with n1 False show ?thesis unfolding n_def[symmetric] by simp
  qed
qed

lemmas world_eval = calm_env_def connected_world_def initial_globals_def
  send_image_chunks_def send_chunks.simps esp_ble_gatts_send_indicate_def vTaskDelay_def
  heap_caps_malloc_def start_header_def end_header_def chunk_packet_def low_byte_def
  max_chunk_size_def packets_since_def Let_def

text \<open>
  Claim C1, as amended. The chunk payload is fixed at 510 bytes. For every blob \<open>B\<close> of
  at least 1 and at most \<open>65535 * 510\<close> bytes, passed with its length, when the link is
  up on entry, the link accepts the start packet and every scratch buffer is allocated,
  the packets handed to the link are: one start packet \<open>[0x01]\<close>, the chunk count \<open>n\<close>
  as 16 bits big-endian, the length as 32 bits little-endian; then \<open>n\<close> data packets
  \<open>[0x02]\<close>, the index \<open>i\<close> as 16 bits big-endian, and bytes \<open>i * 510\<close> onwards of
  \<open>B\<close>, 510 of them except in the last packet, which carries
  \<open>length B - (n - 1) * 510\<close>; then one end packet \<open>[0x03]\<close> with the chunk count; here
  \<open>n\<close> is the ceiling of \<open>length B / 510\<close>, and the payloads concatenated in order
  are \<open>B\<close>. The outcome of sending the data and end packets, and what the other tasks do
  during the sleeps, are arbitrary.
\<close>

theorem send_image_chunks_framing:
  assumes conn: "ble_device_connected (glob w)"
    and L: "unat image_len = length B"
    and pos: "0 < length B"
    and bnd: "length B \<le> 65535 * 510"
    and hdr: "link_send env (length (link_calls w)) = ESP_OK"
    and heap: "\<forall>k. heap_alloc env k"
  shows "let n = (length B + 509) div 510;
             pk = packets_since w (send_image_chunks env (Some B) image_len h w)
         in (n - 1) * 510 < length B \<and> length B \<le> n * 510
          \<and> length pk = n + 2
          \<and> pk ! 0 = 0x01 # be16 n @ le32 (length B)
          \<and> be16_value (be16 n) = n \<and> le32_value (le32 (length B)) = length B
          \<and> (\<forall>i<n. pk ! (i + 1) = 0x02 # be16 i @ take 510 (drop (i * 510) B)
                  \<and> be16_value (be16 i) = i
                  \<and> length (take 510 (drop (i * 510) B))
                      = (if i + 1 < n then 510 else length B - (n - 1) * 510))
          \<and> pk ! (n + 1) = 0x03 # be16 n
          \<and> concat (map (\<lambda>i. drop 3 (pk ! (i + 1))) [0..<n]) = B"
proof -
  define n where "n = (length B + 509) div 510"
  define tc where "tc = (image_len + max_chunk_size - 1) div max_chunk_size"
  define pk where "pk = packets_since w (send_image_chunks env (Some B) image_len h w)"
  have b32: "length B + 509 < 2 ^ 32" using bnd by simp
  have nz: "image_len \<noteq> 0" using L pos by auto
  have utc: "unat tc = n"
    unfolding tc_def n_def using unat_total_chunks[of image_len] b32 L by simp
  have n16: "n \<le> 65535" unfolding n_def using bnd by simp
  have "510 \<le> length B + 509" using pos by (cases B) simp_all
  then have npos: "0 < n" unfolding n_def by (simp only: div_greater_zero_iff) simp
  have ceil: "(n - 1) * 510 < length B" "length B \<le> n * 510"
  proof -
    have "(length B + 509) mod 510 < 510" by simp
    moreover have "n * 510 + (length B + 509) mod 510 = length B + 509"
      unfolding n_def by (rule div_mult_mod_eq)
    ultimately have "length B + 509 < (n + 1) * 510" "n * 510 \<le> length B + 509" by simp_all
    with npos show "(n - 1) * 510 < length B" "length B \<le> n * 510"
      by (simp_all add: algebra_simps)
  qed
  have pk_eq: "pk = start_header tc image_len
                 # map (\<lambda>i. chunk_packet B image_len (of_nat i)) [0 ..< n] @ [end_header tc]"
    unfolding pk_def tc_def utc[unfolded tc_def, symmetric]
    by (rule send_image_chunks_packets[OF conn nz hdr heap])
  have len: "length pk = n + 2" by (simp add: pk_eq)
  have sh: "start_header tc image_len = 0x01 # be16 n @ le32 (length B)"
  proof -
    have "unat tc < 65536" using utc n16 by simp
    from be16_low_bytes[OF this] le32_low_bytes[of image_len]
    show ?thesis by (simp add: start_header_def utc L)
  qed
  have eh: "end_header tc = 0x03 # be16 n"
  proof -
    have "unat tc < 65536" using utc n16 by simp
    from be16_low_bytes[OF this] show ?thesis by (simp add: end_header_def utc)
  qed
  have dp: "chunk_packet B image_len (of_nat i) = 0x02 # be16 i @ take 510 (drop (i * 510) B)"
    if "i < n" for i
  proof -
    have i32: "i < 2 ^ 32" using that n16 by simp
    have "unat (of_nat i :: size_t) < 65536"
      using that n16 by (simp add: unat_of_nat_size_t[OF i32])
    from be16_low_bytes[OF this]
    have "[low_byte (drop_bit 8 (of_nat i)), low_byte (of_nat i :: size_t)] = be16 i"
      by (simp add: unat_of_nat_size_t[OF i32])
    with chunk_packet_payload[OF L b32 that[unfolded n_def]] show ?thesis by simp
  qed
  have p0: "pk ! 0 = 0x01 # be16 n @ le32 (length B)" by (simp add: pk_eq sh)
  have pi: "pk ! (i + 1) = 0x02 # be16 i @ take 510 (drop (i * 510) B)" if "i < n" for i
    using that by (simp add: pk_eq nth_append dp)
  have pe: "pk ! (n + 1) = 0x03 # be16 n" by (simp add: pk_eq nth_append eh)
  have pl: "length (take 510 (drop (i * 510) B))
              = (if i + 1 < n then 510 else length B - (n - 1) * 510)" if "i < n" for i
    using payload_length[OF pos that[unfolded n_def]] by (simp add: n_def)
  have v: "be16_value (be16 i) = i" if "i \<le> n" for i
    using that n16 by (simp add: be16_value_be16)
  have lv: "le32_value (le32 (length B)) = length B"
    using b32 by (simp add: le32_value_le32)
  have "map (\<lambda>i. drop 3 (pk ! (i + 1))) [0..<n] = map (\<lambda>i. take 510 (drop (i * 510) B)) [0..<n]"
    by (rule map_cong) (use pi in \<open>simp_all add: be16_def\<close>)
  then have "concat (map (\<lambda>i. drop 3 (pk ! (i + 1))) [0..<n]) = take (n * 510) B"
    by (simp only: concat_take_drop)
  then have rt: "concat (map (\<lambda>i. drop 3 (pk ! (i + 1))) [0..<n]) = B" using ceil(2) by simp
  show ?thesis
    unfolding Let_def n_def[symmetric] pk_def[symmetric]
    using ceil len p0 v lv pi pl pe rt by simp
qed

theorem send_image_chunks_framing_witness:
  "ble_device_connected (glob connected_world)
   \<and> unat (511 :: size_t) = length (replicate 511 (0x41 :: uint8_t))
   \<and> link_send calm_env (length (link_calls connected_world)) = ESP_OK
   \<and> (\<forall>k. heap_alloc calm_env k)
   \<and> (let pk = packets_since connected_world
                  (send_image_chunks calm_env (Some (replicate 511 0x41)) 511 46 connected_world)
      in length pk = 4
         \<and> pk ! 0 = [0x01, 0, 2, 0xFF, 1, 0, 0]
         \<and> pk ! 3 = [0x03, 0, 2]
         \<and> concat (map (\<lambda>i. drop 3 (pk ! (i + 1))) [0..<2]) = replicate 511 0x41)"
proof -
  have h: "ble_device_connected (glob connected_world)"
      "unat (511 :: size_t) = length (replicate 511 (0x41 :: uint8_t))"
      "0 < length (replicate 511 (0x41 :: uint8_t))"
      "length (replicate 511 (0x41 :: uint8_t)) \<le> 65535 * 510"
      "link_send calm_env (length (link_calls connected_world)) = ESP_OK"
      "\<forall>k. heap_alloc calm_env k"
    by (simp_all add: connected_world_def calm_env_def)
  from send_image_chunks_framing[OF h, of 46] h show ?thesis
    by (simp add: Let_def be16_def le32_def)
qed

lemma disconnect_event_clears_flag:
  "gatts_profile_a_event_handler atof sensor control_handle junk ESP_GATTS_DISCONNECT_EVT g
     = Inr (g\<lparr>ble_device_connected := False\<rparr>, [])"
  by (simp add: gatts_profile_a_event_handler_def)

lemma header_failure_aborts:
  assumes "ble_device_connected (glob w)" "image_len \<noteq> 0"
    and "link_send env (length (link_calls w)) \<noteq> ESP_OK"
  shows "packets_since w (send_image_chunks env (Some d) image_len h w)
         = [start_header ((image_len + max_chunk_size - 1) div max_chunk_size) image_len]"
  using assms
  by (simp add: send_image_chunks_def esp_ble_gatts_send_indicate_def packets_since_def Let_def)

text \<open>
  The claim as written fails in three ways. When the link refuses the start packet the
  function returns at once: for a one-byte blob only the start packet is handed to the
  link. When the scratch buffer of a chunk cannot be allocated the function returns
  there: again only the start packet is handed to the link. And a blob of
  \<open>65536 * 510\<close> bytes has 65536 chunks, which the two count bytes of the start packet
  cannot hold: they are both 0.
\<close>

theorem send_image_chunks_framing_counterexample:
  "packets_since connected_world
      (send_image_chunks failing_link_env (Some [0x41]) 1 46 connected_world)
     = [[0x01, 0, 1, 1, 0, 0, 0]]
   \<and> packets_since connected_world
      (send_image_chunks no_heap_env (Some [0x41]) 1 46 connected_world)
     = [[0x01, 0, 1, 1, 0, 0, 0]]
   \<and> (length (replicate 33423360 (0 :: uint8_t)) + 509) div 510 = 65536
   \<and> take 3 (hd (packets_since connected_world
        (send_image_chunks calm_env (Some (replicate 33423360 0)) 33423360 46 connected_world)))
     = [0x01, 0, 0]"
proof -
  have a: "packets_since connected_world
      (send_image_chunks failing_link_env (Some [0x41]) 1 46 connected_world)
     = [[0x01, 0, 1, 1, 0, 0, 0]]"
    by (simp add: failing_link_env_def world_eval)
  have c: "packets_since connected_world
      (send_image_chunks no_heap_env (Some [0x41]) 1 46 connected_world)
     = [[0x01, 0, 1, 1, 0, 0, 0]]"
    by (simp add: no_heap_env_def world_eval)
  have h: "ble_device_connected (glob connected_world)" "(33423360 :: size_t) \<noteq> 0"
      "link_send calm_env (length (link_calls connected_world)) = ESP_OK"
      "\<forall>k. heap_alloc calm_env k"
    by (simp_all add: connected_world_def calm_env_def)
  have tc: "((33423360 :: size_t) + max_chunk_size - 1) div max_chunk_size = 65536"
    by (simp add: max_chunk_size_def)
  have "hd (packets_since connected_world
        (send_image_chunks calm_env (Some (replicate 33423360 0)) 33423360 46 connected_world))
        = start_header 65536 33423360"
    unfolding send_image_chunks_packets[OF h] tc by simp
  then have b: "take 3 (hd (packets_since connected_world
        (send_image_chunks calm_env (Some (replicate 33423360 0)) 33423360 46 connected_world)))
     = [0x01, 0, 0]"
    by (simp add: start_header_def low_byte_def)
  show ?thesis using a b c by simp
qed




lemma send_chunks_trace:
  assumes "\<forall>k. heap_alloc env k"
  shows "\<exists>cs. link_calls (snd (send_chunks env d len h tc idx w)) = link_calls w @ cs
            \<and> map sc_bytes cs = map (\<lambda>i. chunk_packet d len (of_nat i)) [unat idx ..< unat tc]
            \<and> map sc_result cs
                = map (link_send env) [length (link_calls w) ..< length (link_calls w) + length cs]"
  using assms
proof (induction env d len h tc idx w rule: send_chunks.induct)
  case (1 env d len h tc idx w)
  show ?case
  proof (cases "idx < tc")
    case False
    then have "unat tc \<le> unat idx" by (simp add: word_less_nat_alt)
    with False show ?thesis by (subst send_chunks.simps) simp
  next
    case True
    then have lt: "unat idx < unat tc" by (simp add: word_less_nat_alt)
    have "unat tc < 2 ^ LENGTH(32)" by (rule unsigned_less)
    with lt have "unat idx + unat (1 :: size_t) < 2 ^ LENGTH(32)" by simp
    then have "unat (idx + 1) = unat idx + unat (1 :: size_t)" by (simp only: unat_add_lem)
    then have suc: "unat (idx + 1) = Suc (unat idx)" by simp
    have up: "[unat idx ..< unat tc] = unat idx # [Suc (unat idx) ..< unat tc]"
      using lt by (simp add: upt_conv_Cons)
    define w1 where "w1 = snd (heap_caps_malloc env w)"
    define w2 where "w2 = snd (esp_ble_gatts_send_indicate env h (chunk_packet d len idx) w1)"
    define L where "L = length (link_calls w)"
    have m: "heap_caps_malloc env w = (True, w1)"
      using 1(2) by (simp add: w1_def heap_caps_malloc_def)
    have s: "esp_ble_gatts_send_indicate env h (chunk_packet d len idx) w1
               = (fst (esp_ble_gatts_send_indicate env h (chunk_packet d len idx) w1), w2)"
      by (simp add: w2_def)
    have step: "send_chunks env d len h tc idx w = send_chunks env d len h tc (idx + 1) (vTaskDelay env w2)"
      using True m by (subst send_chunks.simps) (simp add: w2_def case_prod_beta)
    obtain c where calls: "link_calls (vTaskDelay env w2) = link_calls w @ [c]"
        "sc_bytes c = chunk_packet d len idx" "sc_result c = link_send env L"
      by (simp add: vTaskDelay_def w2_def w1_def esp_ble_gatts_send_indicate_def
            heap_caps_malloc_def Let_def L_def)
    from 1(1)[OF True m[symmetric] refl s[symmetric] 1(2)]
    obtain cs where ih:
       "link_calls (snd (send_chunks env d len h tc (idx + 1) (vTaskDelay env w2)))
           = link_calls (vTaskDelay env w2) @ cs"
       "map sc_bytes cs = map (\<lambda>i. chunk_packet d len (of_nat i)) [unat (idx + 1) ..< unat tc]"
       "map sc_result cs = map (link_send env)
           [length (link_calls (vTaskDelay env w2)) ..< length (link_calls (vTaskDelay env w2)) + length cs]"
      by blast
    have a: "link_calls (snd (send_chunks env d len h tc idx w)) = link_calls w @ (c # cs)"
      unfolding step using ih(1) calls(1) by simp
    have b: "map sc_bytes (c # cs) = map (\<lambda>i. chunk_packet d len (of_nat i)) [unat idx ..< unat tc]"
      using ih(2) calls(2) by (simp add: up suc)
    have u: "[L ..< L + length (c # cs)] = L # [Suc L ..< Suc L + length cs]"
      by (subst upt_rec) simp
    have "length (link_calls (vTaskDelay env w2)) = Suc L"
      by (simp add: calls(1) L_def)
    with ih(3) have ih': "map sc_result cs = map (link_send env) [Suc L ..< Suc L + length cs]"
      by (simp only:)
    have c: "map sc_result (c # cs) = map (link_send env) [L ..< L + length (c # cs)]"
      by (simp only: u list.map calls(3) ih')
    from a b c show ?thesis unfolding L_def by blast
  qed
qed

lemma send_image_chunks_trace:
  assumes conn: "ble_device_connected (glob w)"
    and nz: "image_len \<noteq> 0"
    and hdr: "link_send env (length (link_calls w)) = ESP_OK"
    and heap: "\<forall>k. heap_alloc env k"
  shows "\<exists>cs. link_calls (send_image_chunks env (Some d) image_len h w) = link_calls w @ cs
         \<and> map sc_bytes cs
             = start_header ((image_len + max_chunk_size - 1) div max_chunk_size) image_len
               # map (\<lambda>i. chunk_packet d image_len (of_nat i))
                   [0 ..< unat ((image_len + max_chunk_size - 1) div max_chunk_size)]
               @ [end_header ((image_len + max_chunk_size - 1) div max_chunk_size)]
         \<and> map sc_result cs
             = map (link_send env) [length (link_calls w) ..< length (link_calls w) + length cs]"
proof -
  define tc where "tc = (image_len + max_chunk_size - 1) div max_chunk_size"
  define L where "L = length (link_calls w)"
  define w1 where "w1 = snd (esp_ble_gatts_send_indicate env h (start_header tc image_len) w)"
  define r where "r = send_chunks env d image_len h tc 0 (vTaskDelay env w1)"
  have s1: "esp_ble_gatts_send_indicate env h (start_header tc image_len) w = (ESP_OK, w1)"
    using hdr by (simp add: w1_def esp_ble_gatts_send_indicate_def Let_def)
  obtain c1 where c1: "link_calls (vTaskDelay env w1) = link_calls w @ [c1]"
      "sc_bytes c1 = start_header tc image_len" "sc_result c1 = link_send env L"
    by (simp add: w1_def vTaskDelay_def esp_ble_gatts_send_indicate_def Let_def L_def)
  have "unat (0 :: size_t) = 0" by simp
  with send_chunks_trace[OF heap, of d image_len h tc 0 "vTaskDelay env w1"]
  have "\<exists>cs. link_calls (snd r) = link_calls (vTaskDelay env w1) @ cs
      \<and> map sc_bytes cs = map (\<lambda>i. chunk_packet d image_len (of_nat i)) [0 ..< unat tc]
      \<and> map sc_result cs = map (link_send env)
          [length (link_calls (vTaskDelay env w1)) ..< length (link_calls (vTaskDelay env w1)) + length cs]"
    unfolding r_def by (simp only:)
  then obtain cs where r: "link_calls (snd r) = link_calls (vTaskDelay env w1) @ cs"
      "map sc_bytes cs = map (\<lambda>i. chunk_packet d image_len (of_nat i)) [0 ..< unat tc]"
      "map sc_result cs = map (link_send env)
          [length (link_calls (vTaskDelay env w1)) ..< length (link_calls (vTaskDelay env w1)) + length cs]"
    by blast
  have fr: "fst r"
    unfolding r_def
    by (rule send_chunks_calls[OF heap, of d image_len h tc 0 "vTaskDelay env w1", THEN conjunct1])
  have res: "send_image_chunks env (Some d) image_len h w
        = snd (esp_ble_gatts_send_indicate env h (end_header tc) (snd r))"
    using conn nz s1 fr
    by (simp add: send_image_chunks_def Let_def tc_def[symmetric] r_def[symmetric] case_prod_beta)
  obtain c3 where c3: "link_calls (snd (esp_ble_gatts_send_indicate env h (end_header tc) (snd r)))
        = link_calls (snd r) @ [c3]" "sc_bytes c3 = end_header tc"
        "sc_result c3 = link_send env (length (link_calls (snd r)))"
    by (simp add: esp_ble_gatts_send_indicate_def Let_def)
  have a: "link_calls (send_image_chunks env (Some d) image_len h w) = link_calls w @ (c1 # cs @ [c3])"
    unfolding res using c3(1) r(1) c1(1) by simp
  have b: "map sc_bytes (c1 # cs @ [c3])
      = start_header tc image_len # map (\<lambda>i. chunk_packet d image_len (of_nat i)) [0 ..< unat tc]
        @ [end_header tc]"
    using c1(2) r(2) c3(2) by simp
  have lr: "length (link_calls (snd r)) = Suc L + length cs"
    using r(1) c1(1) by (simp add: L_def)
  have u: "[L ..< L + length (c1 # cs @ [c3])]
         = L # [Suc L ..< Suc L + length cs] @ [Suc L + length cs]"
    by (subst upt_rec) simp
  have "length (link_calls (vTaskDelay env w1)) = Suc L"
    by (simp add: c1(1) L_def)
  with r(3) have r': "map sc_result cs = map (link_send env) [Suc L ..< Suc L + length cs]"
    by (simp only:)
  have c: "map sc_result (c1 # cs @ [c3]) = map (link_send env) [L ..< L + length (c1 # cs @ [c3])]"
    by (simp only: u list.map map_append c1(3) c3(3) lr r')
  show ?thesis
    unfolding tc_def[symmetric] L_def[symmetric]
    by (rule exI[of _ "c1 # cs @ [c3]"], intro conjI) (fact a b c)+
qed

text \<open>
  Claim C4, as amended. With the link up on entry and every scratch buffer allocated:
  when the link accepts the start packet, the calls of the link's send primitive made by
  the transfer are, in this order, the start packet, every data chunk from index 0 to the
  last, and the end packet, each exactly once, and the status recorded for each call is
  whatever the link returned for it, success or failure: a failed data or end packet is
  neither repeated nor does it stop the packets after it. When the link refuses the
  start packet, the transfer ends there and only the start packet was handed to the
  link.
\<close>

theorem send_image_chunks_best_effort:
  assumes conn: "ble_device_connected (glob w)"
    and nz: "image_len \<noteq> 0"
    and heap: "\<forall>k. heap_alloc env k"
  shows "(link_send env (length (link_calls w)) = ESP_OK \<longrightarrow>
           (\<exists>cs. link_calls (send_image_chunks env (Some d) image_len h w) = link_calls w @ cs
              \<and> map sc_bytes cs
                  = start_header ((image_len + max_chunk_size - 1) div max_chunk_size) image_len
                    # map (\<lambda>i. chunk_packet d image_len (of_nat i))
                        [0 ..< unat ((image_len + max_chunk_size - 1) div max_chunk_size)]
                    @ [end_header ((image_len + max_chunk_size - 1) div max_chunk_size)]
              \<and> map sc_result cs
                  = map (link_send env)
                      [length (link_calls w) ..< length (link_calls w) + length cs]))
       \<and> (link_send env (length (link_calls w)) \<noteq> ESP_OK \<longrightarrow>
           packets_since w (send_image_chunks env (Some d) image_len h w)
           = [start_header ((image_len + max_chunk_size - 1) div max_chunk_size) image_len])"
proof (intro conjI impI)
  assume hdr: "link_send env (length (link_calls w)) = ESP_OK"
  from send_image_chunks_trace[OF conn nz hdr heap]
  show "\<exists>cs. link_calls (send_image_chunks env (Some d) image_len h w) = link_calls w @ cs
              \<and> map sc_bytes cs
                  = start_header ((image_len + max_chunk_size - 1) div max_chunk_size) image_len
                    # map (\<lambda>i. chunk_packet d image_len (of_nat i))
                        [0 ..< unat ((image_len + max_chunk_size - 1) div max_chunk_size)]
                    @ [end_header ((image_len + max_chunk_size - 1) div max_chunk_size)]
              \<and> map sc_result cs
                  = map (link_send env)
                      [length (link_calls w) ..< length (link_calls w) + length cs]" .
next
  assume "link_send env (length (link_calls w)) \<noteq> ESP_OK"
  from header_failure_aborts[OF conn nz this]
  show "packets_since w (send_image_chunks env (Some d) image_len h w)
           = [start_header ((image_len + max_chunk_size - 1) div max_chunk_size) image_len]" .
qed

theorem send_image_chunks_best_effort_witness:
  "ble_device_connected (glob connected_world) \<and> (3 :: size_t) \<noteq> 0
   \<and> (\<forall>k. heap_alloc lossy_env k)
   \<and> link_send lossy_env (length (link_calls connected_world)) = ESP_OK
   \<and> map sc_bytes (link_calls (send_image_chunks lossy_env (Some [1, 2, 3]) 3 46 connected_world))
     = [[0x01, 0, 1, 3, 0, 0, 0], [0x02, 0, 0, 1, 2, 3], [0x03, 0, 1]]
   \<and> map sc_result (link_calls (send_image_chunks lossy_env (Some [1, 2, 3]) 3 46 connected_world))
     = [ESP_OK, ESP_FAIL, ESP_FAIL]
   \<and> link_send failing_link_env (length (link_calls connected_world)) \<noteq> ESP_OK
   \<and> packets_since connected_world
        (send_image_chunks failing_link_env (Some [1, 2, 3]) 3 46 connected_world)
     = [[0x01, 0, 1, 3, 0, 0, 0]]"
proof -
  have h: "ble_device_connected (glob connected_world)" "(3 :: size_t) \<noteq> 0"
    by (simp_all add: connected_world_def)
  have h1: "\<forall>k. heap_alloc lossy_env k" "\<forall>k. heap_alloc failing_link_env k"
    by (simp_all add: lossy_env_def failing_link_env_def calm_env_def)
  have l: "link_send lossy_env (length (link_calls connected_world)) = ESP_OK"
      "link_send failing_link_env (length (link_calls connected_world)) \<noteq> ESP_OK"
    by (simp_all add: lossy_env_def failing_link_env_def connected_world_def)
  have e: "link_calls connected_world = []" by (simp add: connected_world_def)
  have tc: "unat (((3 :: size_t) + max_chunk_size - 1) div max_chunk_size) = 1"
    by (simp add: max_chunk_size_def)
  have bytes: "start_header (((3 :: size_t) + max_chunk_size - 1) div max_chunk_size) 3
                 # map (\<lambda>i. chunk_packet [1, 2, 3] 3 (of_nat i))
                     [0 ..< unat (((3 :: size_t) + max_chunk_size - 1) div max_chunk_size)]
                 @ [end_header (((3 :: size_t) + max_chunk_size - 1) div max_chunk_size)]
               = [[0x01, 0, 1, 3, 0, 0, 0], [0x02, 0, 0, 1, 2, 3], [0x03, 0, 1]]"
    unfolding tc
    by (simp add: start_header_def end_header_def chunk_packet_def low_byte_def max_chunk_size_def)
  have sh: "start_header (((3 :: size_t) + max_chunk_size - 1) div max_chunk_size) 3
              = [0x01, 0, 1, 3, 0, 0, 0]"
    by (simp add: start_header_def low_byte_def max_chunk_size_def)
  from send_image_chunks_best_effort[OF h h1(1), of "[1, 2, 3]" 46, THEN conjunct1, rule_format, OF l(1)]
  obtain cs where cs: "link_calls (send_image_chunks lossy_env (Some [1, 2, 3]) 3 46 connected_world) = cs"
      "map sc_bytes cs = [[0x01, 0, 1, 3, 0, 0, 0], [0x02, 0, 0, 1, 2, 3], [0x03, 0, 1]]"
      "map sc_result cs = map (link_send lossy_env) [0 ..< length cs]"
    unfolding bytes e by (elim exE conjE) simp
  from cs(2) have "length (map sc_bytes cs) = 3" by simp
  then have "length cs = 3" by simp
  then have "map (link_send lossy_env) [0 ..< length cs] = [ESP_OK, ESP_FAIL, ESP_FAIL]"
    by (simp add: lossy_env_def upt_rec)
  with cs(3) have r: "map sc_result cs = [ESP_OK, ESP_FAIL, ESP_FAIL]"
    by simp
  have p2: "packets_since connected_world
        (send_image_chunks failing_link_env (Some [1, 2, 3]) 3 46 connected_world)
     = [[0x01, 0, 1, 3, 0, 0, 0]]"
    using send_image_chunks_best_effort[OF h h1(2), of "[1, 2, 3]" 46, THEN conjunct2, rule_format, OF l(2)]
    by (simp only: sh)
  have b1: "map sc_bytes (link_calls (send_image_chunks lossy_env (Some [1, 2, 3]) 3 46 connected_world))
     = [[0x01, 0, 1, 3, 0, 0, 0], [0x02, 0, 0, 1, 2, 3], [0x03, 0, 1]]"
    unfolding cs(1) by (rule cs(2))
  have r1: "map sc_result (link_calls (send_image_chunks lossy_env (Some [1, 2, 3]) 3 46 connected_world))
     = [ESP_OK, ESP_FAIL, ESP_FAIL]"
    unfolding cs(1) by (rule r)
  show ?thesis
    by (intro conjI) (rule h h1(1) l b1 r1 p2)+
qed


text \<open>
  Claim C4 as written fails for the start packet: when its send fails, no data packet and
  no end packet is attempted.
\<close>

theorem send_image_chunks_best_effort_counterexample:
  "length (link_calls (send_image_chunks failing_link_env (Some [1, 2, 3]) 3 46 connected_world)) = 1
   \<and> length (link_calls (send_image_chunks calm_env (Some [1, 2, 3]) 3 46 connected_world)) = 3"
  by (simp add: failing_link_env_def world_eval)

section \<open>Properties of the control write path\<close>

lemma control_write_in_bounds:
  assumes "unat (wr_len ev) < 256" and "length (wr_value ev) = unat (wr_len ev)"
  shows "control_write junk ev
         = Inr (c_string ((take (unat (wr_len ev)) (wr_value ev)
                  @ drop (unat (wr_len ev)) (map junk [0..<command_size]))[unat (wr_len ev) := 0]))"
  using assms
  by (simp add: control_write_def memcpy_checked_def store_checked_def command_size_def)

text \<open>
  Below 256 the declared length is authoritative: the command is the value up to its
  first NUL, or all of it, and nothing behind the declared length is read.
\<close>

lemma control_write_string:
  assumes len: "length (wr_value ev) = unat (wr_len ev)" and lt: "unat (wr_len ev) < 256"
  shows "control_write junk ev
         = Inr (map (\<lambda>b. char_of (unat b)) (takeWhile (\<lambda>b. b \<noteq> 0) (wr_value ev)))"
proof -
  define n where "n = unat (wr_len ev)"
  define rest where "rest = drop n (map junk [0..<command_size])"
  have "length rest = 256 - n" by (simp add: rest_def command_size_def)
  with lt have "rest \<noteq> []" unfolding n_def by auto
  then obtain r rs where rest: "rest = r # rs" by (cases rest) auto
  have "(take n (wr_value ev) @ rest)[n := 0] = wr_value ev @ 0 # rs"
    using len by (simp add: n_def[symmetric] rest list_update_append)
  then have "c_string ((take n (wr_value ev) @ rest)[n := 0])
        = map (\<lambda>b. char_of (unat b)) (takeWhile (\<lambda>b. b \<noteq> 0) (wr_value ev))"
    by (simp add: c_string_def takeWhile_tail)
  then show ?thesis
    using control_write_in_bounds[OF lt len, of junk] by (simp add: n_def rest_def)
qed

text \<open>
  Claim C3. The claim asks that, for every declared length up to the ceiling of the
  link, all accesses of the copy and of the terminator stay inside the 256-byte array.
  The handler has no check of the declared length. With a declared length of 256 the
  copy fills the array and the terminator is stored at index 256, one past the end; with
  a declared length of 512 the copy itself leaves the array at index 256.
\<close>

theorem control_write_overflows_command:
  "gatts_profile_a_event_handler atof sensor control_handle junk
     (ESP_GATTS_WRITE_EVT \<lparr>wr_is_prep = False, wr_handle = control_handle, wr_len = 256,
                            wr_value = replicate 256 0x41\<rparr>) g
   = Inl (Out_of_bounds 256)
   \<and> gatts_profile_a_event_handler atof sensor control_handle junk
     (ESP_GATTS_WRITE_EVT \<lparr>wr_is_prep = False, wr_handle = control_handle, wr_len = 512,
                            wr_value = replicate 512 0x41\<rparr>) g
   = Inl (Out_of_bounds 256)"
  by (simp add: gatts_profile_a_event_handler_def control_write_def memcpy_checked_def
        store_checked_def command_size_def)

section \<open>Properties of the command interpreter\<close>

lemmas command_eval = handle_control_command_def strcmp_eq_def strncmp_eq_def atoi_def
  isspace_def isdigit_def digits_value_def clamp_quality_def size_of_value_def send_ble_status_def

text \<open>
  Claim C5 as written fails on malformed variants of the numeric commands:
  \<open>QUALITY:abc\<close> stores quality 4 (the clamp of \<open>atoi\<close>'s 0) over the initial 25,
  and \<open>SIZE:\<close> with nothing behind it selects size 0.
\<close>

theorem unknown_command_counterexample:
  "image_quality initial_globals = 25
   \<and> image_quality (fst (handle_control_command (\<lambda>s. Fin 0) None ''QUALITY:abc'' initial_globals)) = 4
   \<and> current_frame_size initial_globals = FRAMESIZE_QVGA
   \<and> current_frame_size (fst (handle_control_command (\<lambda>s. Fin 0) (Some (\<lambda>sz. True)) ''SIZE:'' initial_globals))
       = FRAMESIZE_96X96"
  by (simp add: command_eval initial_globals_def)

text \<open>
  Claim C5, as amended. For every input string that is none of the six exact tokens and
  does not begin with \<open>INTERVAL:\<close> or \<open>QUALITY:\<close>, and that, when it begins with
  \<open>SIZE:\<close>, carries a number (as \<open>atoi\<close> reads it) outside 0..13, the interpreter
  returns, leaves every field of the configuration unchanged and calls no collaborator.
\<close>

theorem unknown_command_ignored:
  assumes "command \<notin> {''CAPTURE'', ''START_FRAMES'', ''STOP_FRAMES'', ''START_AUDIO'',
                        ''STOP_AUDIO'', ''STATUS''}"
    and "take 9 command \<noteq> ''INTERVAL:''"
    and "take 8 command \<noteq> ''QUALITY:''"
    and "take 5 command = ''SIZE:'' \<longrightarrow> atoi (drop 5 command) < 0 \<or> 13 < atoi (drop 5 command)"
  shows "handle_control_command atof sensor command g = (g, [])"
proof (cases "take 5 command = ''SIZE:''")
  case True
  with assms(4) have "size_of_value (atoi (drop 5 command)) = None"
    by (auto simp add: size_of_value_def)
  with assms(1-3) True show ?thesis
    by (simp add: handle_control_command_def strcmp_eq_def strncmp_eq_def send_ble_status_def)
next
  case False
  with assms(1-3) show ?thesis
    by (simp add: handle_control_command_def strcmp_eq_def strncmp_eq_def send_ble_status_def)
qed

theorem unknown_command_ignored_witness:
  "handle_control_command (\<lambda>s. Fin 0) (Some (\<lambda>sz. True)) ''SIZE:20'' initial_globals = (initial_globals, [])
   \<and> handle_control_command (\<lambda>s. Fin 0) (Some (\<lambda>sz. True)) ''capture'' initial_globals = (initial_globals, [])
   \<and> atoi (drop 5 ''SIZE:20'') = 20"
proof -
  have a: "atoi (drop 5 ''SIZE:20'') = 20"
    by (simp add: atoi_def isspace_def isdigit_def digits_value_def)
  have "handle_control_command (\<lambda>s. Fin 0) (Some (\<lambda>sz. True)) ''SIZE:20'' initial_globals = (initial_globals, [])"
    by (rule unknown_command_ignored) (use a in simp_all)
  moreover have "handle_control_command (\<lambda>s. Fin 0) (Some (\<lambda>sz. True)) ''capture'' initial_globals = (initial_globals, [])"
    by (rule unknown_command_ignored) simp_all
  ultimately show ?thesis using a by simp
qed

lemma interval_clamp_value:
  "fmaxf (Fin (1 / 10)) (fminf (Fin 60) x)
   = Fin (case x of Fin b \<Rightarrow> max (1 / 10) (min 60 b) | NInf \<Rightarrow> 1 / 10 | PInf \<Rightarrow> 60 | NaN \<Rightarrow> 60)"
  by (cases x) simp_all

lemma interval_clamp_range:
  "\<exists>r. fmaxf (Fin (1 / 10)) (fminf (Fin 60) x) = Fin r \<and> 1 / 10 \<le> r \<and> r \<le> 60"
proof -
  define r :: real where
    "r = (case x of Fin b \<Rightarrow> max (1 / 10) (min 60 b) | NInf \<Rightarrow> 1 / 10 | PInf \<Rightarrow> 60 | NaN \<Rightarrow> 60)"
  have "1 / 10 \<le> r \<and> r \<le> 60" unfolding r_def by (cases x) simp_all
  moreover have "fmaxf (Fin (1 / 10)) (fminf (Fin 60) x) = Fin r"
    unfolding r_def by (rule interval_clamp_value)
  ultimately show ?thesis by blast
qed

lemma clamp_quality_range: "4 \<le> clamp_quality q \<and> clamp_quality q \<le> 63"
  by (simp add: clamp_quality_def)

lemma interval_command_sets:
  assumes "strncmp_eq command ''INTERVAL:'' 9"
  shows "handle_control_command atof sensor command g
         = (g\<lparr>frame_interval := fmaxf (Fin (1 / 10)) (fminf (Fin 60) (atof (drop 9 command)))\<rparr>, [])"
proof -
  from assms have t: "take 9 command = ''INTERVAL:''" by (simp add: strncmp_eq_def)
  have ne: "command \<noteq> ''CAPTURE''" "command \<noteq> ''START_FRAMES''" "command \<noteq> ''STOP_FRAMES''"
      "command \<noteq> ''START_AUDIO''" "command \<noteq> ''STOP_AUDIO''"
    using t by auto
  show ?thesis
    using assms ne by (simp add: handle_control_command_def strcmp_eq_def)
qed

lemma other_command_keeps_interval:
  assumes "\<not> strncmp_eq command ''INTERVAL:'' 9"
  shows "frame_interval (fst (handle_control_command atof sensor command g)) = frame_interval g"
  using assms
  by (simp add: handle_control_command_def send_ble_status_def Let_def
        split: option.splits)

lemma command_keeps_quality_range:
  assumes "4 \<le> image_quality g \<and> image_quality g \<le> 63"
  shows "4 \<le> image_quality (fst (handle_control_command atof sensor command g))
       \<and> image_quality (fst (handle_control_command atof sensor command g)) \<le> 63"
  using assms clamp_quality_range[of "atoi (drop 8 command)"]
  by (simp add: handle_control_command_def send_ble_status_def Let_def
        split: option.splits)

lemma interval_command_quality:
  assumes "strncmp_eq command ''INTERVAL:'' 9"
  shows "image_quality (fst (handle_control_command atof sensor command g)) = image_quality g"
  by (simp add: interval_command_sets[OF assms])

text \<open>
  Claim C6, as amended. At every reachable state \<open>image_quality\<close> is in \<open>[4, 63]\<close>.
  \<open>frame_interval\<close> is in \<open>[0.1, 60.0]\<close> at every state reached after an
  \<open>INTERVAL:\<close> command has been handled, and at every state reached before that it
  has its initial value 0.033.
\<close>

theorem numeric_fields_reachable:
  assumes "reachable_hist b g"
  shows "4 \<le> image_quality g \<and> image_quality g \<le> 63
       \<and> (b \<longrightarrow> (\<exists>r. frame_interval g = Fin r \<and> 1 / 10 \<le> r \<and> r \<le> 60))
       \<and> (\<not> b \<longrightarrow> frame_interval g = Fin (33 / 1000))"
  using assms
proof (induction rule: reachable_hist.induct)
  case hist_init
  show ?case by (simp add: initial_globals_def)
next
  case (hist_event b g atof sensor control_handle junk event g' calls)
  note ih = hist_event.IH
  note ev = hist_event.hyps(2)
  show ?case
  proof (cases "is_interval_write control_handle junk event")
    case True
    then obtain wev command where w: "event = ESP_GATTS_WRITE_EVT wev"
        "\<not> wr_is_prep wev" "wr_handle wev = control_handle"
        "control_write junk wev = Inr command" "strncmp_eq command ''INTERVAL:'' 9"
      by (auto simp add: is_interval_write_def split: gatts_event.splits sum.splits)
    from ev w have g': "g' = fst (handle_control_command atof sensor command g)"
      by (simp add: gatts_profile_a_event_handler_def)
    from interval_command_sets[OF w(5), of atof sensor g]
    have fi: "frame_interval g' = fmaxf (Fin (1 / 10)) (fminf (Fin 60) (atof (drop 9 command)))"
      unfolding g' by simp
    from interval_command_quality[OF w(5), of atof sensor g] ih
    have q: "4 \<le> image_quality g' \<and> image_quality g' \<le> 63" unfolding g' by simp
    from interval_clamp_range[of "atof (drop 9 command)"] fi
    have "\<exists>r. frame_interval g' = Fin r \<and> 1 / 10 \<le> r \<and> r \<le> 60" by simp
    with q True show ?thesis by simp
  next
    case False
    have keep: "frame_interval g' = frame_interval g
                \<and> 4 \<le> image_quality g' \<and> image_quality g' \<le> 63"
    proof (cases event)
      case (ESP_GATTS_WRITE_EVT wev)
      show ?thesis
      proof (cases "\<not> wr_is_prep wev \<and> wr_handle wev = control_handle")
        case True
        with ev ESP_GATTS_WRITE_EVT obtain command where c:
          "control_write junk wev = Inr command"
          "handle_control_command atof sensor command g = (g', calls)"
          by (auto simp add: gatts_profile_a_event_handler_def split: sum.splits)
        from False ESP_GATTS_WRITE_EVT True c(1)
        have n: "\<not> strncmp_eq command ''INTERVAL:'' 9"
          by (simp add: is_interval_write_def)
        from c(2) have g': "g' = fst (handle_control_command atof sensor command g)" by simp
        from other_command_keeps_interval[OF n, of atof sensor g]
             command_keeps_quality_range[of g atof sensor command] ih
        show ?thesis unfolding g' by simp
      next
        case False
        with ev ESP_GATTS_WRITE_EVT have "g' = g"
          by (auto simp add: gatts_profile_a_event_handler_def)
        with ih show ?thesis by simp
      qed
    next
      case ESP_GATTS_CONNECT_EVT
      with ev have "g' = g\<lparr>ble_device_connected := True\<rparr>"
        by (simp add: gatts_profile_a_event_handler_def send_ble_status_def)
      with ih show ?thesis by simp
    next
      case ESP_GATTS_DISCONNECT_EVT
      with ev have "g' = g\<lparr>ble_device_connected := False\<rparr>"
        by (simp add: gatts_profile_a_event_handler_def)
      with ih show ?thesis by simp
    next
      case ESP_GATTS_OTHER_EVT
      with ev have "g' = g"
        by (simp add: gatts_profile_a_event_handler_def)
      with ih show ?thesis by simp
    qed
    with ih False show ?thesis by simp
  qed
next
  case (hist_served b g)
  then show ?case by simp
qed

lemma interval_write_string: "control_write junk interval_write = Inr ''INTERVAL:100''"
proof -
  have "length (wr_value interval_write) = unat (wr_len interval_write)"
       "unat (wr_len interval_write) < 256"
    by (simp_all add: interval_write_def)
  from control_write_string[OF this, of junk] show ?thesis
    by (simp add: interval_write_def char_of_def bit_Suc_0_iff)
qed

lemma interval_write_is_interval:
  "is_interval_write 42 junk (ESP_GATTS_WRITE_EVT interval_write)"
  by (simp add: is_interval_write_def interval_write_string strncmp_eq_def)
     (simp add: interval_write_def)

lemma reachable_hist_after_interval:
  "reachable_hist True (initial_globals\<lparr>frame_interval := Fin 60\<rparr>)"
proof -
  have "gatts_profile_a_event_handler (\<lambda>s. Fin 100) None 42 (\<lambda>i. 0)
          (ESP_GATTS_WRITE_EVT interval_write) initial_globals
        = Inr (initial_globals\<lparr>frame_interval := Fin 60\<rparr>, [])"
    by (simp add: gatts_profile_a_event_handler_def interval_write_string)
       (simp add: interval_write_def handle_control_command_def strcmp_eq_def strncmp_eq_def)
  from hist_event[OF hist_init this] interval_write_is_interval[of "\<lambda>i. 0"]
  show ?thesis by simp
qed

theorem numeric_fields_reachable_witness:
  "reachable_hist True (initial_globals\<lparr>frame_interval := Fin 60\<rparr>)
   \<and> 4 \<le> image_quality (initial_globals\<lparr>frame_interval := Fin 60\<rparr>)
   \<and> image_quality (initial_globals\<lparr>frame_interval := Fin 60\<rparr>) \<le> 63
   \<and> (\<exists>r. frame_interval (initial_globals\<lparr>frame_interval := Fin 60\<rparr>) = Fin r \<and> 1 / 10 \<le> r \<and> r \<le> 60)
   \<and> reachable_hist False initial_globals
   \<and> frame_interval initial_globals = Fin (33 / 1000)"
proof -
  from numeric_fields_reachable[OF reachable_hist_after_interval]
  have 1: "4 \<le> image_quality (initial_globals\<lparr>frame_interval := Fin 60\<rparr>)"
      "image_quality (initial_globals\<lparr>frame_interval := Fin 60\<rparr>) \<le> 63"
      "\<exists>r. frame_interval (initial_globals\<lparr>frame_interval := Fin 60\<rparr>) = Fin r \<and> 1 / 10 \<le> r \<and> r \<le> 60"
    by simp_all
  from numeric_fields_reachable[OF hist_init]
  have 2: "frame_interval initial_globals = Fin (33 / 1000)" by simp
  show ?thesis
    by (intro conjI) (rule reachable_hist_after_interval 1 hist_init 2)+
qed

text \<open>
  Claim C6 as written fails at initialisation: the initial \<open>frame_interval\<close> is 0.033,
  below the lower clamp bound 0.1.
\<close>

theorem numeric_fields_counterexample:
  "reachable_hist False initial_globals \<and> frame_interval initial_globals = Fin (33 / 1000)
   \<and> (33 / 1000 :: real) < 1 / 10
   \<and> \<not> (\<exists>r. frame_interval initial_globals = Fin r \<and> 1 / 10 \<le> r \<and> r \<le> 60)"
  using hist_init by (simp add: initial_globals_def)


section \<open>Properties of the video producer loop\<close>






text \<open>
  Claim C8, as amended. In the video producer loop, whenever streaming is enabled, the
  link is up and a frame is due, the pass sets the cadence anchor to the tick count it
  read at its top, whether the capture succeeds or fails. A failed capture in addition
  increments the failure count, leaves the frame count alone, sends nothing, and ends the
  pass after one sleep (the fixed back-off); a successful capture increments the frame
  count and leaves the failure count alone.
\<close>

theorem due_frame_moves_anchor:
  assumes "frame_streaming_enabled (glob w)" and "ble_device_connected (glob w)"
    and "interval_ticks env (frame_interval (glob w)) \<le> current_time - last_frame_time l"
  shows "last_frame_time (fst (streaming_iteration env current_time (l, w))) = current_time
       \<and> (camera env (length (camera_calls w)) = None \<longrightarrow>
            failed_frames (fst (streaming_iteration env current_time (l, w))) = failed_frames l + 1
          \<and> frame_count (fst (streaming_iteration env current_time (l, w))) = frame_count l
          \<and> link_calls (snd (streaming_iteration env current_time (l, w))) = link_calls w
          \<and> sleeps (snd (streaming_iteration env current_time (l, w))) = Suc (sleeps w))
       \<and> (camera env (length (camera_calls w)) \<noteq> None \<longrightarrow>
            frame_count (fst (streaming_iteration env current_time (l, w))) = frame_count l + 1
          \<and> failed_frames (fst (streaming_iteration env current_time (l, w))) = failed_frames l)"
  using assms
  by (auto simp add: streaming_iteration_def esp_camera_fb_get_def vTaskDelay_def Let_def
        split: option.splits)

theorem due_frame_moves_anchor_witness:
  "frame_streaming_enabled (glob streaming_world) \<and> ble_device_connected (glob streaming_world)
   \<and> interval_ticks calm_env (frame_interval (glob streaming_world)) \<le> 1000 - last_frame_time initial_locals
   \<and> camera calm_env (length (camera_calls streaming_world)) = None
   \<and> last_frame_time initial_locals = 0
   \<and> last_frame_time (fst (streaming_iteration calm_env 1000 (initial_locals, streaming_world))) = 1000
   \<and> failed_frames (fst (streaming_iteration calm_env 1000 (initial_locals, streaming_world))) = 1"
proof -
  have h: "frame_streaming_enabled (glob streaming_world)" "ble_device_connected (glob streaming_world)"
      "interval_ticks calm_env (frame_interval (glob streaming_world)) \<le> 1000 - last_frame_time initial_locals"
    by (simp_all add: streaming_world_def connected_world_def calm_env_def initial_locals_def)
  have c: "camera calm_env (length (camera_calls streaming_world)) = None"
      "last_frame_time initial_locals = 0" "failed_frames initial_locals + 1 = 1"
    by (simp_all add: calm_env_def initial_locals_def)
  from due_frame_moves_anchor[OF h] h c show ?thesis by simp
qed

text \<open>
  Claim C8 as written fails: a pass at tick 1000 whose capture fails leaves the anchor at
  1000, not at its previous value 0.
\<close>

theorem failed_capture_anchor_counterexample:
  "last_frame_time initial_locals = 0
   \<and> camera_calls (snd (streaming_iteration calm_env 1000 (initial_locals, streaming_world)))
       = [\<lparr>cc_site = Streaming_frame, cc_requested = True, cc_frame = None\<rparr>]
   \<and> last_frame_time (fst (streaming_iteration calm_env 1000 (initial_locals, streaming_world))) = 1000"
  by (simp add: streaming_iteration_def esp_camera_fb_get_def vTaskDelay_def Let_def
        streaming_world_def connected_world_def calm_env_def initial_locals_def initial_globals_def)





section \<open>Properties of the audio gate\<close>

text \<open>\<open>isqrt\<close> is the integer square root.\<close>

lemma isqrt_bounds: "isqrt n * isqrt n \<le> n \<and> n < (isqrt n + 1) * (isqrt n + 1)"
proof (induction n rule: isqrt.induct)
  case (1 n)
  show ?case
  proof (cases "n = 0")
    case True
    then show ?thesis by simp
  next
    case False
    define s where "s = isqrt (n div 4)"
    from 1[OF False] have ih: "s * s \<le> n div 4" "n div 4 < (s + 1) * (s + 1)"
      unfolding s_def by simp_all
    have lo: "(2 * s) * (2 * s) \<le> n"
    proof -
      have "4 * (s * s) \<le> 4 * (n div 4)" using ih(1) by simp
      also have "\<dots> \<le> n" by simp
      finally show ?thesis by (simp add: algebra_simps)
    qed
    have hi: "n < (2 * s + 2) * (2 * s + 2)"
    proof -
      have "n div 4 + 1 \<le> (s + 1) * (s + 1)" using ih(2) by simp
      then have "4 * (n div 4 + 1) \<le> 4 * ((s + 1) * (s + 1))" by simp
      moreover have "n < 4 * (n div 4 + 1)" by simp
      ultimately have "n < 4 * ((s + 1) * (s + 1))" by simp
      then show ?thesis by (simp add: algebra_simps)
    qed
    have e: "isqrt n = (if (2 * s + 1) * (2 * s + 1) \<le> n then 2 * s + 1 else 2 * s)"
      using False by (subst isqrt.simps) (simp add: s_def Let_def)
    show ?thesis
    proof (cases "(2 * s + 1) * (2 * s + 1) \<le> n")
      case True
      with e hi show ?thesis by (simp add: algebra_simps)
    next
      case False
      with e lo show ?thesis by (simp add: algebra_simps)
    qed
  qed
qed

lemma sint_quarter:
  fixes rms :: int16_t
  assumes "0 \<le> sint rms"
  shows "sint (word_of_int (sint rms sdiv 4) :: int16_t) = sint rms div 4"
proof -
  have "sint rms < 2 ^ (LENGTH(16) - 1)" by (rule sint_lt)
  then have r: "sint rms div 4 < 32768" "0 \<le> sint rms div 4" using assms by simp_all
  have "sint rms sdiv 4 = sint rms div 4"
    using assms by (simp add: signed_divide_int_def sgn_if)
  moreover have "sint (word_of_int (sint rms div 4) :: int16_t) = sint rms div 4"
    using r by (simp add: sint_sbintrunc' signed_take_bit_int_eq_self)
  ultimately show ?thesis by simp
qed

lemma update_threshold_nonneg:
  assumes "0 \<le> sint threshold"
  shows "0 \<le> sint (update_threshold rms threshold)"
proof (cases "sint rms > sint threshold * 2")
  case True
  with assms have "0 \<le> sint rms" by simp
  from sint_quarter[OF this] \<open>0 \<le> sint rms\<close> True show ?thesis
    by (simp add: update_threshold_def)
next
  case False
  with assms show ?thesis by (simp add: update_threshold_def)
qed

lemma send_audio_data_threshold:
  "adaptive_threshold (fst (send_audio_data env audio_ready i2s (a, w))) = adaptive_threshold a
   \<or> (\<exists>rms. adaptive_threshold (fst (send_audio_data env audio_ready i2s (a, w)))
              = update_threshold rms (adaptive_threshold a))"
  by (auto simp add: send_audio_data_def Let_def case_prod_beta)

lemma audio_threshold_nonneg:
  assumes "audio_reachable a"
  shows "0 \<le> sint (adaptive_threshold a)"
  using assms
proof (induction rule: audio_reachable.induct)
  case audio_init
  show ?case by (simp add: initial_audio_static_def)
next
  case (audio_step a env audio_ready i2s w)
  from send_audio_data_threshold[of env audio_ready i2s a w] audio_step.IH
  show ?case by (auto simp add: update_threshold_nonneg)
qed

lemma encode_samples_length: "length (fst (encode_samples prev samples)) = length samples"
  by (induction samples arbitrary: prev) (simp_all add: case_prod_beta)

text \<open>
  Claim C9. For every reachable state of the gate and every non-empty window whose
  \<open>rms_level\<close> exceeds twice the threshold of that state (link up, audio ready, samples
  read): the threshold becomes \<open>rms_level / 4\<close> (C division), which is below
  \<open>rms_level\<close>, so the window passes the silence check, is encoded, one byte per sample,
  and handed to the link on the audio characteristic; and when \<open>rms_level\<close> is also
  below four times the old threshold, the new threshold is strictly lower than the old
  one.
\<close>

theorem loud_window_is_sent:
  assumes reach: "audio_reachable a"
    and conn: "ble_device_connected (glob w)"
    and ne: "samples \<noteq> []"
    and loud: "sint (rms_level samples) > 2 * sint (adaptive_threshold a)"
  shows "sint (adaptive_threshold (fst (send_audio_data env True (ESP_OK, samples) (a, w))))
           = sint (rms_level samples) sdiv 4
       \<and> sint (adaptive_threshold (fst (send_audio_data env True (ESP_OK, samples) (a, w))))
           < sint (rms_level samples)
       \<and> (\<exists>c. link_calls (snd (send_audio_data env True (ESP_OK, samples) (a, w))) = link_calls w @ [c]
              \<and> sc_handle c = audio_handle env
              \<and> sc_bytes c = fst (encode_samples (prev_sample a) samples)
              \<and> length (sc_bytes c) = length samples)
       \<and> (sint (rms_level samples) < 4 * sint (adaptive_threshold a) \<longrightarrow>
            sint (adaptive_threshold (fst (send_audio_data env True (ESP_OK, samples) (a, w))))
              < sint (adaptive_threshold a))"
proof -
  define rms where "rms = rms_level samples"
  define t' where "t' = (word_of_int (sint rms sdiv 4) :: int16_t)"
  have t0: "0 \<le> sint (adaptive_threshold a)" using reach by (rule audio_threshold_nonneg)
  with loud have pos: "0 < sint rms" unfolding rms_def by simp
  then have q: "sint t' = sint rms div 4" unfolding t'_def using sint_quarter[of rms] by simp
  have sd: "sint rms sdiv 4 = sint rms div 4"
    using pos by (simp add: signed_divide_int_def sgn_if)
  have up: "update_threshold rms (adaptive_threshold a) = t'"
    using loud unfolding rms_def[symmetric] by (simp add: update_threshold_def t'_def)
  have lt: "sint t' < sint rms" unfolding q using pos by simp
  have res: "send_audio_data env True (ESP_OK, samples) (a, w)
      = (a\<lparr>adaptive_threshold := t', prev_sample := snd (encode_samples (prev_sample a) samples)\<rparr>,
         snd (esp_ble_gatts_send_indicate env (audio_handle env)
                (fst (encode_samples (prev_sample a) samples)) w))"
    using conn ne lt up
    by (simp add: send_audio_data_def Let_def rms_def[symmetric] case_prod_beta)
  have lower: "sint t' < sint (adaptive_threshold a)" if "sint rms < 4 * sint (adaptive_threshold a)"
    unfolding q using that by simp
  show ?thesis
    unfolding res rms_def[symmetric]
    using q sd lt lower
    by (simp add: esp_ble_gatts_send_indicate_def Let_def encode_samples_length)
qed

lemma rms_level_example: "rms_level [150, 150, 150, 150] = 150"
  by (simp add: rms_level_def rms_sum_def)

theorem loud_window_is_sent_witness:
  "audio_reachable initial_audio_static \<and> ble_device_connected (glob connected_world)
   \<and> sint (rms_level [150, 150, 150, 150]) > 2 * sint (adaptive_threshold initial_audio_static)
   \<and> sint (rms_level [150, 150, 150, 150]) < 4 * sint (adaptive_threshold initial_audio_static)
   \<and> adaptive_threshold initial_audio_static = 50
   \<and> sint (adaptive_threshold (fst (send_audio_data calm_env True (ESP_OK, [150, 150, 150, 150])
                                      (initial_audio_static, connected_world)))) = 37
   \<and> length (link_calls (snd (send_audio_data calm_env True (ESP_OK, [150, 150, 150, 150])
                                      (initial_audio_static, connected_world)))) = 1"
proof -
  have h: "audio_reachable initial_audio_static" "ble_device_connected (glob connected_world)"
      "[150, 150, 150, 150 :: int16_t] \<noteq> []"
      "sint (rms_level [150, 150, 150, 150]) > 2 * sint (adaptive_threshold initial_audio_static)"
    using audio_init by (simp_all add: connected_world_def rms_level_example initial_audio_static_def)
  have l: "sint (rms_level [150, 150, 150, 150]) < 4 * sint (adaptive_threshold initial_audio_static)"
      "adaptive_threshold initial_audio_static = 50"
      "sint (rms_level [150, 150, 150, 150]) sdiv 4 = 37"
      "link_calls connected_world = []"
    by (simp_all add: rms_level_example initial_audio_static_def connected_world_def
          signed_divide_int_def)
  note t = loud_window_is_sent[OF h, of calm_env]
  from t have 1: "sint (adaptive_threshold (fst (send_audio_data calm_env True (ESP_OK, [150, 150, 150, 150])
                                      (initial_audio_static, connected_world)))) = 37"
    by (simp only: l(3))
  from t have 2: "length (link_calls (snd (send_audio_data calm_env True (ESP_OK, [150, 150, 150, 150])
                                      (initial_audio_static, connected_world)))) = 1"
    by (auto simp add: l(4))
  from h l 1 2 show ?thesis by blast
qed

end
